theory Spec2Isabelle
  imports Complex_Main
begin

section \<open>The MP3 drag-and-drop player: data model\<close>

text \<open>
  A shallow embedding of \<^verbatim>\<open>script.js\<close>. The script keeps three globals
  (\<^verbatim>\<open>playlist\<close>, \<^verbatim>\<open>currentTrackIndex\<close>, \<^verbatim>\<open>isPlaying\<close>) and drives
  one \<^verbatim>\<open>audio\<close> element, the object-URL registry of the browser and a few page
  elements. Every function of the script becomes a function from the state before the
  call to the outcome of the call.

  An object URL is an opaque string made by the browser; the model keeps only its
  identity, a number drawn from a counter, so that two calls of
  \<^verbatim>\<open>URL.createObjectURL\<close> never give the same one.
\<close>

type_synonym url = nat

text \<open>The three properties of a browser \<^verbatim>\<open>File\<close> that the script reads.\<close>

record jsfile =
  fname :: string
  ftype :: string
  fsize :: nat

text \<open>The object literal built in \<^verbatim>\<open>handleFiles\<close>: \<^verbatim>\<open>{name, file, url}\<close>.\<close>

record track =
  name :: string
  file_obj :: jsfile
  url :: url

text \<open>
  The \<^verbatim>\<open>audio\<close> element, as far as the script writes it: the \<^verbatim>\<open>src\<close>
  attribute (\<open>None\<close> is the empty string, no source) and the \<^verbatim>\<open>paused\<close> flag
  that \<^verbatim>\<open>play()\<close> and \<^verbatim>\<open>pause()\<close> set.
\<close>

record audio =
  src :: "url option"
  paused :: bool

text \<open>The two labels of the play button (a pause sign while playing, a play sign otherwise).\<close>

datatype glyph = GlyphPlay | GlyphPause

datatype severity = Info | Warning | Error

text \<open>
  The calls that revoke an object URL or assign the element's source, in the order the
  script makes them.
\<close>

datatype event = Revoke url | SetSrc "url option"

text \<open>
  The state of the page: the three globals of the script; the element; what the script
  has written to the page (the label of the current track, the play button, the rendered
  rows, the notifications shown) and to the console; the number of object URLs created
  so far, which is the next URL; and the trace of revocations and source assignments.
\<close>

record player =
  playlist :: "track list"
  currentTrackIndex :: int
  isPlaying :: bool
  audioPlayer :: audio
  currentTrackEl :: string
  playBtn :: glyph
  playlistItems :: "(string \<times> bool) list"
  notifications :: "(string \<times> severity) list"
  console :: "string list"
  nextUrl :: nat
  trace :: "event list"

text \<open>
  Reading a property of \<^verbatim>\<open>undefined\<close> throws a \<^verbatim>\<open>TypeError\<close>. A throw does
  not undo the assignments made before it, so the error carries the state it leaves
  behind: \<open>Inl (TypeError, s)\<close> is an uncaught error in state \<open>s\<close>, \<open>Inr s\<close> a
  normal return.
\<close>

datatype js_error = TypeError

type_synonym result = "(js_error \<times> player) + player"

definition state_of :: "result \<Rightarrow> player" where
  "state_of r = (case r of Inl (e, s) \<Rightarrow> s | Inr s \<Rightarrow> s)"

definition and_then :: "result \<Rightarrow> (player \<Rightarrow> result) \<Rightarrow> result" where
  "and_then r f = (case r of Inl e \<Rightarrow> Inl e | Inr s \<Rightarrow> f s)"

section \<open>JavaScript primitives\<close>

text \<open>\<^verbatim>\<open>xs[i]\<close>: \<^verbatim>\<open>undefined\<close> (here \<open>None\<close>) outside \<open>0 .. length - 1\<close>.\<close>

definition index_at :: "'a list \<Rightarrow> int \<Rightarrow> 'a option" where
  "index_at xs i = (if 0 \<le> i \<and> i < int (length xs) then Some (xs ! nat i) else None)"

text \<open>
  \<^verbatim>\<open>xs.splice(i, 1)\<close>: a negative start counts from the end, a start past the end
  is the end, and at most one element is deleted.
\<close>

definition splice1 :: "'a list \<Rightarrow> int \<Rightarrow> 'a list" where
  "splice1 xs i =
     (let len = int (length xs);
          start = (if i < 0 then max (len + i) 0 else min i len)
      in take (nat start) xs @ drop (nat start + 1) xs)"

text \<open>
  \<^verbatim>\<open>toLowerCase\<close> on the letters A to Z; every other character is left as it is.
  (Outside ASCII no character lowers to a letter of the five extensions below.)
\<close>

definition toLowerCase_char :: "char \<Rightarrow> char" where
  "toLowerCase_char c =
     (if 65 \<le> (of_char c :: nat) \<and> (of_char c :: nat) \<le> 90
      then char_of ((of_char c :: nat) + 32) else c)"

definition toLowerCase :: "string \<Rightarrow> string" where
  "toLowerCase s = map toLowerCase_char s"

definition endsWith :: "string \<Rightarrow> string \<Rightarrow> bool" where
  "endsWith s t = (length t \<le> length s \<and> drop (length s - length t) s = t)"


text \<open>The decimal digits of a natural number; \<open>digit\<close> is only used below ten.\<close>

definition digit :: "nat \<Rightarrow> char" where
  "digit d = ''0123456789'' ! d"

function decimal :: "nat \<Rightarrow> string" where
  "decimal n = (if n < 10 then [digit n] else decimal (n div 10) @ [digit (n mod 10)])"
  by pat_completeness auto
termination
  by (relation "measure (\<lambda>n. n)") auto

declare decimal.simps [simp del]

text \<open>
  \<^verbatim>\<open>name.replace(/\.[^/.]+$/, '')\<close>: the pattern is a dot followed, up to the end
  of the string, by one or more characters that are neither a slash nor a dot. Only the
  last dot of the name can start such a match.
\<close>

definition stripExtension :: "string \<Rightarrow> string" where
  "stripExtension n =
     (let tail = takeWhile (\<lambda>c. c \<noteq> CHR ''.'') (rev n)
      in if length tail < length n \<and> tail \<noteq> [] \<and> CHR ''/'' \<notin> set tail
         then take (length n - length tail - 1) n
         else n)"

section \<open>The browser objects the script calls\<close>

definition createObjectURL :: "player \<Rightarrow> url \<times> player" where
  "createObjectURL s = (nextUrl s, s\<lparr>nextUrl := Suc (nextUrl s)\<rparr>)"

definition revokeObjectURL :: "url \<Rightarrow> player \<Rightarrow> player" where
  "revokeObjectURL u s = s\<lparr>trace := trace s @ [Revoke u]\<rparr>"

definition set_src :: "url option \<Rightarrow> player \<Rightarrow> player" where
  "set_src v s = s\<lparr>audioPlayer := (audioPlayer s)\<lparr>src := v\<rparr>, trace := trace s @ [SetSrc v]\<rparr>"

text \<open>
  \<^verbatim>\<open>audioPlayer.play()\<close> returns a promise and \<^verbatim>\<open>pause()\<close> returns nothing;
  neither throws, so the \<^verbatim>\<open>catch\<close> clause of \<^verbatim>\<open>playTrack\<close> is never entered.
  The flag \<open>paused\<close> records which of the two the script called last.
\<close>

definition audio_play :: "player \<Rightarrow> player" where
  "audio_play s = s\<lparr>audioPlayer := (audioPlayer s)\<lparr>paused := False\<rparr>\<rparr>"

definition audio_pause :: "player \<Rightarrow> player" where
  "audio_pause s = s\<lparr>audioPlayer := (audioPlayer s)\<lparr>paused := True\<rparr>\<rparr>"

definition console_warn :: "string \<Rightarrow> player \<Rightarrow> player" where
  "console_warn msg s = s\<lparr>console := console s @ [msg]\<rparr>"

section \<open>The script\<close>

definition MAX_FILE_SIZE :: nat where
  "MAX_FILE_SIZE = 50 * 1024 * 1024"

text \<open>
  The state when the script has run its top level: the three globals as lines 16 to 18
  set them, an element with no source, nothing rendered and nothing logged. The label
  and the button start with what the markup of the page gives them, which is not part of
  the sources; they are taken to show what \<^verbatim>\<open>removeTrack\<close> restores when the
  playlist becomes empty. No property below depends on them.
\<close>

definition initial :: player where
  "initial = \<lparr>playlist = [], currentTrackIndex = - 1, isPlaying = False,
     audioPlayer = \<lparr>src = None, paused = True\<rparr>,
     currentTrackEl = ''No track selected'', playBtn = GlyphPlay,
     playlistItems = [], notifications = [], console = [], nextUrl = 0, trace = []\<rparr>"

definition showNotification :: "string \<Rightarrow> severity \<Rightarrow> player \<Rightarrow> player" where
  "showNotification message type s = s\<lparr>notifications := notifications s @ [(message, type)]\<rparr>"

text \<open>
  \<^verbatim>\<open>renderPlaylist\<close> empties the list and builds one row per track, in order: the
  row's markup is assigned to \<^verbatim>\<open>innerHTML\<close> from a template that holds the name of
  the track as it is, the remove button is looked up in the row with
  \<^verbatim>\<open>querySelector\<close>, and the row is appended. A name that the HTML parser reads as
  markup can swallow the button (the name \<^verbatim>\<open><!--\<close> opens a comment that runs to the
  end of the row); the lookup then gives \<^verbatim>\<open>null\<close> and the call of
  \<^verbatim>\<open>addEventListener\<close> on it throws a \<^verbatim>\<open>TypeError\<close>, with the rows before
  that one appended and nothing after. The parser belongs to the browser: the model
  takes its verdict on a name, whether the name hides the button, as the parameter
  \<open>hides\<close> of every function that renders.

  A rendered row is the name of its track and whether it carries the class
  \<^verbatim>\<open>active\<close>.
\<close>

definition renderPlaylist :: "(string \<Rightarrow> bool) \<Rightarrow> player \<Rightarrow> result" where
  "renderPlaylist hides s =
     (let shown = takeWhile (\<lambda>(index, t). \<not> hides (name t)) (enumerate 0 (playlist s));
          s1 = s\<lparr>playlistItems :=
                 map (\<lambda>(index, t). (name t, int index = currentTrackIndex s)) shown\<rparr>
      in if list_ex (\<lambda>t. hides (name t)) (playlist s) then Inl (TypeError, s1) else Inr s1)"

definition validMimeTypes :: "string list" where
  "validMimeTypes = [''audio/mp3'', ''audio/mpeg'', ''audio/x-mpeg'', ''audio/mpeg3'',
     ''audio/mpg'', ''audio/x-mpg'', ''audio/x-mpeg-3'']"

definition validExtensions :: "string list" where
  "validExtensions = [''.mp3'', ''.mp2'', ''.mpga'', ''.mpg'', ''.mpeg'']"

definition checkIfMp3 :: "jsfile \<Rightarrow> bool" where
  "checkIfMp3 f =
     (if ftype f \<in> set validMimeTypes then True
      else let fileName = toLowerCase (fname f)
           in list_ex (\<lambda>ext. endsWith fileName ext) validExtensions)"

definition playTrack :: "player \<Rightarrow> player" where
  "playTrack s = (audio_play s)\<lparr>playBtn := GlyphPause, isPlaying := True\<rparr>"

definition pauseTrack :: "player \<Rightarrow> player" where
  "pauseTrack s = (audio_pause s)\<lparr>playBtn := GlyphPlay, isPlaying := False\<rparr>"

definition loadTrack :: "(string \<Rightarrow> bool) \<Rightarrow> int \<Rightarrow> player \<Rightarrow> result" where
  "loadTrack hides index s =
     (let s1 = s\<lparr>currentTrackIndex := index\<rparr>
      in case index_at (playlist s1) index of
           None \<Rightarrow> Inl (TypeError, s1)
         | Some t \<Rightarrow>
             and_then
               (renderPlaylist hides ((set_src (Some (url t)) s1)\<lparr>currentTrackEl := name t\<rparr>))
               (\<lambda>s2. Inr (playTrack s2)))"

definition removeTrack :: "(string \<Rightarrow> bool) \<Rightarrow> int \<Rightarrow> player \<Rightarrow> result" where
  "removeTrack hides index s =
     (case index_at (playlist s) index of
        None \<Rightarrow> Inl (TypeError, s)
      | Some t \<Rightarrow>
          (let s1 = revokeObjectURL (url t) s;
               s2 = s1\<lparr>playlist := splice1 (playlist s1) index\<rparr>
           in and_then
                (if index = currentTrackIndex s2 then
                   (if length (playlist s2) > 0
                    then loadTrack hides (min index (int (length (playlist s2)) - 1)) s2
                    else Inr ((set_src None (audio_pause (s2\<lparr>currentTrackIndex := - 1\<rparr>)))
                           \<lparr>currentTrackEl := ''No track selected'',
                             playBtn := GlyphPlay, isPlaying := False\<rparr>))
                 else if index < currentTrackIndex s2
                 then Inr (s2\<lparr>currentTrackIndex := currentTrackIndex s2 - 1\<rparr>)
                 else Inr s2)
                (renderPlaylist hides)))"

text \<open>
  The loop of \<^verbatim>\<open>handleFiles\<close>, with its two counters. \<^verbatim>\<open>continue\<close> and the
  end of the loop body are both the recursive call.
\<close>

fun handleFiles_loop :: "jsfile list \<Rightarrow> nat \<Rightarrow> nat \<Rightarrow> player \<Rightarrow> nat \<times> nat \<times> player" where
  "handleFiles_loop [] validFiles invalidFiles s = (validFiles, invalidFiles, s)"
| "handleFiles_loop (f # files) validFiles invalidFiles s =
     (if fsize f > MAX_FILE_SIZE then
        handleFiles_loop files validFiles (invalidFiles + 1)
          (console_warn (''File '' @ fname f @ '' exceeds 50MB limit'') s)
      else if checkIfMp3 f then
        (let (u, s1) = createObjectURL s;
             t = \<lparr>name = stripExtension (fname f), file_obj = f, url = u\<rparr>
         in handleFiles_loop files (validFiles + 1) invalidFiles
              (s1\<lparr>playlist := playlist s1 @ [t]\<rparr>))
      else
        handleFiles_loop files validFiles (invalidFiles + 1)
          (console_warn (''File '' @ fname f @ '' is not a valid MP3 file'') s))"

definition handleFiles :: "(string \<Rightarrow> bool) \<Rightarrow> jsfile list \<Rightarrow> player \<Rightarrow> result" where
  "handleFiles hides files s =
     (let (validFiles, invalidFiles, s1) = handleFiles_loop files 0 0 s;
          s2 = (if invalidFiles > 0
                then showNotification (''Skipped '' @ decimal invalidFiles @ '' invalid file(s)'')
                       Warning s1
                else s1)
      in if validFiles > 0 then
           and_then (renderPlaylist hides s2)
             (\<lambda>s3. if currentTrackIndex s3 = - 1 then loadTrack hides 0 s3 else Inr s3)
         else Inr s2)"

definition togglePlay :: "(string \<Rightarrow> bool) \<Rightarrow> player \<Rightarrow> result" where
  "togglePlay hides s =
     (if currentTrackIndex s = - 1 then
        (if length (playlist s) > 0 then loadTrack hides 0 s
         else Inr (showNotification ''Please add MP3 files to the playlist'' Warning s))
      else if isPlaying s then Inr (pauseTrack s)
      else Inr (playTrack s))"

definition playPrev :: "(string \<Rightarrow> bool) \<Rightarrow> player \<Rightarrow> result" where
  "playPrev hides s =
     (if currentTrackIndex s > 0 then loadTrack hides (currentTrackIndex s - 1) s
      else loadTrack hides (int (length (playlist s)) - 1) s)"

definition playNext :: "(string \<Rightarrow> bool) \<Rightarrow> player \<Rightarrow> result" where
  "playNext hides s =
     (if currentTrackIndex s < int (length (playlist s)) - 1
      then loadTrack hides (currentTrackIndex s + 1) s
      else loadTrack hides 0 s)"

section \<open>The earlier version of the script\<close>

text \<open>
  The second source file is an earlier version of the same script. Its
  \<^verbatim>\<open>handleFiles\<close> has no size limit, takes a file by its declared type alone, and
  tests the length of the playlist where the later version counts the accepted files.
  The functions it calls are the ones above (its \<^verbatim>\<open>playTrack\<close> has no
  \<^verbatim>\<open>try\<close>, which makes no difference since \<^verbatim>\<open>play()\<close> does not throw).
\<close>

fun handleFiles_000_loop :: "jsfile list \<Rightarrow> player \<Rightarrow> player" where
  "handleFiles_000_loop [] s = s"
| "handleFiles_000_loop (f # files) s =
     (if ftype f = ''audio/mp3'' \<or> ftype f = ''audio/mpeg'' then
        (let (u, s1) = createObjectURL s;
             t = \<lparr>name = stripExtension (fname f), file_obj = f, url = u\<rparr>
         in handleFiles_000_loop files (s1\<lparr>playlist := playlist s1 @ [t]\<rparr>))
      else handleFiles_000_loop files s)"

definition handleFiles_000 :: "(string \<Rightarrow> bool) \<Rightarrow> jsfile list \<Rightarrow> player \<Rightarrow> result" where
  "handleFiles_000 hides files s =
     (let s1 = handleFiles_000_loop files s
      in if length (playlist s1) > 0 then
           and_then (renderPlaylist hides s1)
             (\<lambda>s2. if currentTrackIndex s2 = - 1 then loadTrack hides 0 s2 else Inr s2)
         else Inr s1)"

section \<open>Numbers and the time format\<close>











section \<open>The validation contract of the specification\<close>

text \<open>
  The specification words validation as a function from a file to a verdict. The script
  has no such function: it tests the size inline in \<^verbatim>\<open>handleFiles\<close> and the type
  in \<^verbatim>\<open>checkIfMp3\<close>. The definitions of this section follow the specification's
  words, to be compared with the script: a file is rejected as too large above 50 MiB;
  otherwise it is accepted when its declared type is a known one or when its extension,
  the part of the name from the last dot on, is a known one whatever its case.
\<close>

datatype reason = TooLarge | UnsupportedType

datatype verdict = Accepted | Rejected reason

definition extension :: "string \<Rightarrow> string" where
  "extension n =
     (if CHR ''.'' \<in> set n then CHR ''.'' # rev (takeWhile (\<lambda>c. c \<noteq> CHR ''.'') (rev n)) else [])"

definition spec_validate :: "jsfile \<Rightarrow> verdict" where
  "spec_validate f =
     (if fsize f > 52428800 then Rejected TooLarge
      else if ftype f \<in> set validMimeTypes \<or>
              toLowerCase (extension (fname f)) \<in>
                {''.mp3'', ''.mp2'', ''.mpga'', ''.mpg'', ''.mpeg''}
      then Accepted
      else Rejected UnsupportedType)"

definition rejection_warning :: "jsfile \<Rightarrow> string list" where
  "rejection_warning f =
     (case spec_validate f of
        Accepted \<Rightarrow> []
      | Rejected TooLarge \<Rightarrow> [''File '' @ fname f @ '' exceeds 50MB limit'']
      | Rejected UnsupportedType \<Rightarrow> [''File '' @ fname f @ '' is not a valid MP3 file''])"

section \<open>Runs of the player and their invariants\<close>

text \<open>The URLs a trace revokes, oldest first, one entry per call.\<close>

fun revoked :: "event list \<Rightarrow> url list" where
  "revoked [] = []"
| "revoked (Revoke u # es) = u # revoked es"
| "revoked (SetSrc v # es) = revoked es"

text \<open>
  Whether a trace, read from an element whose source is \<open>cur\<close>, revokes some URL at a
  moment when that URL is the element's source.
\<close>

fun revokes_loaded :: "url option \<Rightarrow> event list \<Rightarrow> bool" where
  "revokes_loaded cur [] = False"
| "revokes_loaded cur (Revoke u # es) = (cur = Some u \<or> revokes_loaded cur es)"
| "revokes_loaded cur (SetSrc v # es) = revokes_loaded v es"

text \<open>
  The two operations that change the playlist: adding files and removing the track at
  an index, any index. An uncaught error ends the handler and the page goes on in the
  state the handler left.
\<close>

datatype op = Add "jsfile list" | Remove int

fun step :: "(string \<Rightarrow> bool) \<Rightarrow> player \<Rightarrow> op \<Rightarrow> player" where
  "step hides s (Add files) = state_of (handleFiles hides files s)"
| "step hides s (Remove index) = state_of (removeTrack hides index s)"

definition run :: "(string \<Rightarrow> bool) \<Rightarrow> player \<Rightarrow> op list \<Rightarrow> player" where
  "run hides s ops = foldl (step hides) s ops"

text \<open>The selection is \<open>-1\<close> or an index of the playlist.\<close>

definition in_range :: "player \<Rightarrow> bool" where
  "in_range s =
     (currentTrackIndex s = - 1 \<or>
      (0 \<le> currentTrackIndex s \<and> currentTrackIndex s < int (length (playlist s))))"

text \<open>
  The URLs of the playlist and the revoked URLs are pairwise different and are exactly
  the URLs created so far.
\<close>

definition urls_ok :: "player \<Rightarrow> bool" where
  "urls_ok s =
     (distinct (map url (playlist s) @ revoked (trace s)) \<and>
      set (map url (playlist s) @ revoked (trace s)) = {..< nextUrl s})"

text \<open>A source of the element is the URL of the selected track.\<close>

definition src_ok :: "player \<Rightarrow> bool" where
  "src_ok s =
     (case src (audioPlayer s) of
        None \<Rightarrow> True
      | Some u \<Rightarrow> map_option url (index_at (playlist s) (currentTrackIndex s)) = Some u)"

text \<open>
  The selection over all the handlers of the page: besides \<open>-1\<close> and the indices of
  the playlist, the index 0 that \<^verbatim>\<open>playNext\<close> stores on the empty playlist.
\<close>

definition index_ok :: "player \<Rightarrow> bool" where
  "index_ok s =
     (- 1 \<le> currentTrackIndex s \<and>
      (currentTrackIndex s < int (length (playlist s)) \<or> currentTrackIndex s = 0))"

text \<open>The page shows no more rows than the playlist has tracks.\<close>

definition rows_ok :: "player \<Rightarrow> bool" where
  "rows_ok s = (length (playlistItems s) \<le> length (playlist s))"

definition page_ok :: "player \<Rightarrow> bool" where
  "page_ok s = (index_ok s \<and> src_ok s \<and> urls_ok s \<and> rows_ok s)"

text \<open>
  All that makes the script run once it is loaded: files dropped or picked, a click on
  the remove button or on the row of a track, the three transport buttons, and the
  events \<^verbatim>\<open>ended\<close> and \<^verbatim>\<open>error\<close> of the element. The listeners of a row exist
  only while the row is on the page, and a row is on the page when
  \<^verbatim>\<open>renderPlaylist\<close> has appended it; the listeners of row \<open>i\<close> call
  \<^verbatim>\<open>loadTrack(i)\<close> and \<^verbatim>\<open>removeTrack(i)\<close>. The events of the element are taken
  to be possible at any moment. (\<^verbatim>\<open>handleAudioError\<close> also writes to the error
  stream of the console, which the model does not keep.)
\<close>

datatype gesture =
  Drop "jsfile list" | RemoveClick int | RowClick int | PlayPause | Prev | Next
  | Ended | AudioError

definition has_row :: "player \<Rightarrow> int \<Rightarrow> bool" where
  "has_row s i = (0 \<le> i \<and> i < int (length (playlistItems s)))"

definition handleAudioError :: "player \<Rightarrow> player" where
  "handleAudioError s = pauseTrack (showNotification ''Error with audio file'' Error s)"

fun react :: "(string \<Rightarrow> bool) \<Rightarrow> player \<Rightarrow> gesture \<Rightarrow> player" where
  "react hides s (Drop files) = state_of (handleFiles hides files s)"
| "react hides s (RemoveClick index) =
     (if has_row s index then state_of (removeTrack hides index s) else s)"
| "react hides s (RowClick index) =
     (if has_row s index then state_of (loadTrack hides index s) else s)"
| "react hides s PlayPause = state_of (togglePlay hides s)"
| "react hides s Prev = state_of (playPrev hides s)"
| "react hides s Next = state_of (playNext hides s)"
| "react hides s Ended = state_of (playNext hides s)"
| "react hides s AudioError = handleAudioError s"

text \<open>The flag of the script agrees with the last call the script made on the element.\<close>

definition in_sync :: "player \<Rightarrow> bool" where
  "in_sync s = (isPlaying s = (\<not> paused (audioPlayer s)))"

section \<open>Closed forms\<close>

text \<open>Whether every row of the playlist keeps its remove button.\<close>

definition renders :: "(string \<Rightarrow> bool) \<Rightarrow> player \<Rightarrow> bool" where
  "renders hides s = (\<not> list_ex (\<lambda>t. hides (name t)) (playlist s))"

text \<open>The state \<^verbatim>\<open>renderPlaylist\<close> leaves, whether it returns or throws.\<close>

definition rendered :: "(string \<Rightarrow> bool) \<Rightarrow> player \<Rightarrow> player" where
  "rendered hides s =
     s\<lparr>playlistItems :=
         map (\<lambda>(index, t). (name t, int index = currentTrackIndex s))
           (takeWhile (\<lambda>(index, t). \<not> hides (name t)) (enumerate 0 (playlist s)))\<rparr>"

text \<open>The state of \<^verbatim>\<open>loadTrack\<close> before it renders.\<close>

definition selected :: "int \<Rightarrow> track \<Rightarrow> player \<Rightarrow> player" where
  "selected i t s = (set_src (Some (url t)) (s\<lparr>currentTrackIndex := i\<rparr>))\<lparr>currentTrackEl := name t\<rparr>"

text \<open>The test a file passes in the loop of \<^verbatim>\<open>handleFiles\<close> to become a track.\<close>

definition accepts :: "jsfile \<Rightarrow> bool" where
  "accepts f = (\<not> fsize f > MAX_FILE_SIZE \<and> checkIfMp3 f)"

text \<open>What the loop appends to the playlist and to the console.\<close>

fun new_tracks :: "jsfile list \<Rightarrow> nat \<Rightarrow> track list" where
  "new_tracks [] n = []"
| "new_tracks (f # fs) n =
     (if accepts f
      then \<lparr>name = stripExtension (fname f), file_obj = f, url = n\<rparr> # new_tracks fs (Suc n)
      else new_tracks fs n)"

fun warnings :: "jsfile list \<Rightarrow> string list" where
  "warnings [] = []"
| "warnings (f # fs) =
     (if fsize f > MAX_FILE_SIZE then (''File '' @ fname f @ '' exceeds 50MB limit'') # warnings fs
      else if checkIfMp3 f then warnings fs
      else (''File '' @ fname f @ '' is not a valid MP3 file'') # warnings fs)"

text \<open>The state of \<^verbatim>\<open>handleFiles\<close> after the loop and the notification.\<close>

definition added :: "jsfile list \<Rightarrow> player \<Rightarrow> player" where
  "added fs s =
     (let s1 = s\<lparr>playlist := playlist s @ new_tracks fs (nextUrl s),
                  console := console s @ warnings fs,
                  nextUrl := nextUrl s + length (new_tracks fs (nextUrl s))\<rparr>
      in if warnings fs \<noteq> []
         then showNotification (''Skipped '' @ decimal (length (warnings fs)) @ '' invalid file(s)'')
                Warning s1
         else s1)"

text \<open>The test of the earlier version.\<close>

definition accepts_000 :: "jsfile \<Rightarrow> bool" where
  "accepts_000 f = (ftype f = ''audio/mp3'' \<or> ftype f = ''audio/mpeg'')"

text \<open>The state of \<^verbatim>\<open>removeTrack\<close> after the revocation and the splice.\<close>

definition removed :: "int \<Rightarrow> player \<Rightarrow> player" where
  "removed i s = s\<lparr>trace := trace s @ [Revoke (url (playlist s ! nat i))],
                   playlist := splice1 (playlist s) i\<rparr>"

text \<open>The state \<^verbatim>\<open>removeTrack\<close> sets when the last track is removed.\<close>

definition idle :: "player \<Rightarrow> player" where
  "idle s = (set_src None (audio_pause (s\<lparr>currentTrackIndex := - 1\<rparr>)))
              \<lparr>currentTrackEl := ''No track selected'', playBtn := GlyphPlay, isPlaying := False\<rparr>"

section \<open>Example inputs\<close>

text \<open>
  The verdict of the parser on the names of the examples: \<open>a\<close>, \<open>b\<close>, \<open>c\<close> and the
  like are text and leave the button in its place; \<^verbatim>\<open><!--\<close> opens a comment that is
  never closed and swallows the button.
\<close>

definition example_parser :: "string \<Rightarrow> bool" where
  "example_parser n = (n = ''<!--'')"

definition song :: "string \<Rightarrow> jsfile" where
  "song n = \<lparr>fname = n, ftype = ''audio/mpeg'', fsize = 4000000\<rparr>"

text \<open>One accepted file dropped on the fresh page.\<close>

definition one_track :: player where
  "one_track = state_of (handleFiles example_parser [song ''a.mp3''] initial)"

text \<open>Two accepted files dropped on the fresh page: the first one plays.\<close>

definition two_tracks :: player where
  "two_tracks = state_of (handleFiles example_parser [song ''a.mp3'', song ''b.mp3''] initial)"

text \<open>Three accepted files dropped on the fresh page.\<close>

definition three_tracks :: player where
  "three_tracks =
     state_of (handleFiles example_parser [song ''a.mp3'', song ''b.mp3'', song ''c.mp3''] initial)"

text \<open>Two tracks, after a click on the second row.\<close>

definition second_selected :: player where
  "second_selected = state_of (loadTrack example_parser 1 two_tracks)"

text \<open>
  One track playing, then a file dropped whose name, without its extension, is
  \<^verbatim>\<open><!--\<close>; and the same after a click on the play button, which pauses.
\<close>

definition markup_added :: player where
  "markup_added = state_of (handleFiles example_parser [song ''<!--.mp3''] one_track)"

definition markup_paused :: player where
  "markup_paused = state_of (togglePlay example_parser markup_added)"


text \<open>
  Four files for the validator: one of exactly 50 MiB, one a byte larger, one with an
  upper-case extension and no declared type, and one that is no MPEG audio at all.
\<close>

definition exactly_50MiB :: jsfile where
  "exactly_50MiB = \<lparr>fname = ''exact.bin'', ftype = ''audio/mpeg'', fsize = 52428800\<rparr>"

definition over_50MiB :: jsfile where
  "over_50MiB = \<lparr>fname = ''big.mp3'', ftype = ''audio/mpeg'', fsize = 52428801\<rparr>"

definition upper_case_mp3 :: jsfile where
  "upper_case_mp3 = \<lparr>fname = ''track.MP3'', ftype = '''', fsize = 1000\<rparr>"

definition wav_file :: jsfile where
  "wav_file = \<lparr>fname = ''track.wav'', ftype = ''audio/wav'', fsize = 1000\<rparr>"

section \<open>Properties\<close>

subsection \<open>Lists, strings and numbers\<close>

lemma index_at_Some_iff:
  "index_at xs i = Some x \<longleftrightarrow> 0 \<le> i \<and> i < int (length xs) \<and> xs ! nat i = x"
  by (auto simp: index_at_def)

lemma index_at_None_iff: "index_at xs i = None \<longleftrightarrow> i < 0 \<or> int (length xs) \<le> i"
  by (auto simp: index_at_def)

lemma splice1_valid:
  "0 \<le> i \<Longrightarrow> i < int (length xs) \<Longrightarrow> splice1 xs i = take (nat i) xs @ drop (Suc (nat i)) xs"
  by (simp add: splice1_def Let_def min_def)

lemma length_splice1_valid:
  "0 \<le> i \<Longrightarrow> i < int (length xs) \<Longrightarrow> length (splice1 xs i) = length xs - 1"
  by (simp add: splice1_valid)

lemma nth_splice1_below:
  "0 \<le> i \<Longrightarrow> i < int (length xs) \<Longrightarrow> j < nat i \<Longrightarrow> splice1 xs i ! j = xs ! j"
  by (simp add: splice1_valid nth_append)

lemma nth_splice1_above:
  "0 \<le> i \<Longrightarrow> i < int (length xs) \<Longrightarrow> nat i \<le> j \<Longrightarrow> Suc j < length xs \<Longrightarrow>
   splice1 xs i ! j = xs ! Suc j"
  by (simp add: splice1_valid nth_append min_def)

lemma distinct_middle:
  "distinct (xs @ ys @ zs) \<longleftrightarrow>
     distinct (xs @ zs) \<and> distinct ys \<and> set ys \<inter> set (xs @ zs) = {}"
  by auto

lemma revoked_append [simp]: "revoked (es @ fs) = revoked es @ revoked fs"
  by (induction es rule: revoked.induct) simp_all

lemma endsWith_iff: "endsWith s t \<longleftrightarrow> (\<exists>p. s = p @ t)"
proof
  assume "endsWith s t"
  then have "s = take (length s - length t) s @ t"
    by (metis append_take_drop_id endsWith_def)
  then show "\<exists>p. s = p @ t" ..
next
  assume "\<exists>p. s = p @ t"
  then show "endsWith s t" by (auto simp: endsWith_def)
qed





subsection \<open>Outcomes\<close>

lemma state_of_simps [simp]: "state_of (Inl (e, s)) = s" "state_of (Inr s) = s"
  by (simp_all add: state_of_def)

lemma and_then_simps [simp]: "and_then (Inl e) f = Inl e" "and_then (Inr s) f = f s"
  by (simp_all add: and_then_def)

subsection \<open>Rendering\<close>

lemma renderPlaylist_eq:
  "renderPlaylist hides s =
     (if renders hides s then Inr (rendered hides s) else Inl (TypeError, rendered hides s))"
  by (simp add: renderPlaylist_def rendered_def renders_def Let_def)

lemma rendered_fields [simp]:
  "playlist (rendered hides s) = playlist s"
  "currentTrackIndex (rendered hides s) = currentTrackIndex s"
  "isPlaying (rendered hides s) = isPlaying s"
  "audioPlayer (rendered hides s) = audioPlayer s"
  "trace (rendered hides s) = trace s"
  "nextUrl (rendered hides s) = nextUrl s"
  "console (rendered hides s) = console s"
  by (simp_all add: rendered_def)

lemma renders_rendered [simp]: "renders hides (rendered hides' s) = renders hides s"
  by (simp add: renders_def)

lemma length_rows_rendered: "length (playlistItems (rendered hides s)) \<le> length (playlist s)"
proof -
  have "length (takeWhile P (enumerate 0 (playlist s))) \<le> length (enumerate 0 (playlist s))" for P
    by (rule length_takeWhile_le)
  then show ?thesis by (simp add: rendered_def)
qed

lemma rows_rendered_all:
  "renders hides s \<Longrightarrow> length (playlistItems (rendered hides s)) = length (playlist s)"
proof -
  assume "renders hides s"
  then have "\<forall>x \<in> set (enumerate 0 (playlist s)). (\<lambda>(index, t). \<not> hides (name t)) x"
    by (auto simp: renders_def list_ex_iff in_set_enumerate_eq)
  then have "takeWhile (\<lambda>(index, t). \<not> hides (name t)) (enumerate 0 (playlist s))
      = enumerate 0 (playlist s)"
    by (simp only: takeWhile_eq_all_conv)
  then have "length (takeWhile (\<lambda>(index, t). \<not> hides (name t)) (enumerate 0 (playlist s)))
      = length (playlist s)"
    by (simp only: length_enumerate)
  then show ?thesis by (simp add: rendered_def)
qed

subsection \<open>Loading a track\<close>

lemma selected_fields [simp]:
  "playlist (selected i t s) = playlist s"
  "currentTrackIndex (selected i t s) = i"
  "isPlaying (selected i t s) = isPlaying s"
  "audioPlayer (selected i t s) = (audioPlayer s)\<lparr>src := Some (url t)\<rparr>"
  "trace (selected i t s) = trace s @ [SetSrc (Some (url t))]"
  "nextUrl (selected i t s) = nextUrl s"
  "console (selected i t s) = console s"
  by (simp_all add: selected_def set_src_def)

lemma renders_selected [simp]: "renders hides (selected i t s) = renders hides s"
  by (simp add: renders_def)

lemma playTrack_fields [simp]:
  "playlist (playTrack s) = playlist s"
  "currentTrackIndex (playTrack s) = currentTrackIndex s"
  "isPlaying (playTrack s)"
  "audioPlayer (playTrack s) = (audioPlayer s)\<lparr>paused := False\<rparr>"
  "trace (playTrack s) = trace s"
  "nextUrl (playTrack s) = nextUrl s"
  "console (playTrack s) = console s"
  "playlistItems (playTrack s) = playlistItems s"
  by (simp_all add: playTrack_def audio_play_def)

lemma renders_playTrack [simp]: "renders hides (playTrack s) = renders hides s"
  by (simp add: renders_def)

lemma pauseTrack_fields [simp]:
  "playlist (pauseTrack s) = playlist s"
  "currentTrackIndex (pauseTrack s) = currentTrackIndex s"
  "\<not> isPlaying (pauseTrack s)"
  "audioPlayer (pauseTrack s) = (audioPlayer s)\<lparr>paused := True\<rparr>"
  "trace (pauseTrack s) = trace s"
  "nextUrl (pauseTrack s) = nextUrl s"
  "console (pauseTrack s) = console s"
  "playlistItems (pauseTrack s) = playlistItems s"
  by (simp_all add: pauseTrack_def audio_pause_def)

lemma loadTrack_invalid:
  "index_at (playlist s) i = None \<Longrightarrow>
   loadTrack hides i s = Inl (TypeError, s\<lparr>currentTrackIndex := i\<rparr>)"
  by (simp add: loadTrack_def)

lemma loadTrack_valid:
  "index_at (playlist s) i = Some t \<Longrightarrow>
   loadTrack hides i s =
     (if renders hides s then Inr (playTrack (rendered hides (selected i t s)))
      else Inl (TypeError, rendered hides (selected i t s)))"
  by (simp add: loadTrack_def renderPlaylist_eq selected_def[symmetric])

text \<open>What \<^verbatim>\<open>loadTrack\<close> leaves, whatever the index and whether it throws or not.\<close>

lemma loadTrack_core:
  "playlist (state_of (loadTrack hides i s)) = playlist s"
  "currentTrackIndex (state_of (loadTrack hides i s)) = i"
  "src (audioPlayer (state_of (loadTrack hides i s))) =
     (case index_at (playlist s) i of None \<Rightarrow> src (audioPlayer s) | Some t \<Rightarrow> Some (url t))"
  "revoked (trace (state_of (loadTrack hides i s))) = revoked (trace s)"
  "nextUrl (state_of (loadTrack hides i s)) = nextUrl s"
  "console (state_of (loadTrack hides i s)) = console s"
  by (cases "index_at (playlist s) i"; simp add: loadTrack_invalid loadTrack_valid)+

lemma loadTrack_playing:
  assumes "index_at (playlist s) i = Some t"
  shows "isPlaying (state_of (loadTrack hides i s)) = (renders hides s \<or> isPlaying s)"
    and "paused (audioPlayer (state_of (loadTrack hides i s)))
           = (\<not> renders hides s \<and> paused (audioPlayer s))"
    and "trace (state_of (loadTrack hides i s)) = trace s @ [SetSrc (Some (url t))]"
    and "(\<exists>s'. loadTrack hides i s = Inr s') = renders hides s"
  by (simp_all add: loadTrack_valid[OF assms])

lemma loadTrack_rows:
  "index_at (playlist s) i = Some t \<Longrightarrow>
   length (playlistItems (state_of (loadTrack hides i s))) \<le> length (playlist s)"
  using length_rows_rendered[of hides "selected i t s"]
  by (simp add: loadTrack_valid)

lemma loadTrack_rows_invalid:
  "index_at (playlist s) i = None \<Longrightarrow>
   playlistItems (state_of (loadTrack hides i s)) = playlistItems s"
  by (simp add: loadTrack_invalid)

subsection \<open>Adding files\<close>

lemma handleFiles_loop_eq:
  "handleFiles_loop fs v i s =
     (v + length (new_tracks fs (nextUrl s)), i + length (warnings fs),
      s\<lparr>playlist := playlist s @ new_tracks fs (nextUrl s),
        console := console s @ warnings fs,
        nextUrl := nextUrl s + length (new_tracks fs (nextUrl s))\<rparr>)"
proof (induction fs arbitrary: v i s)
  case Nil
  show ?case by simp
next
  case (Cons f fs)
  show ?case
    by (simp add: Cons.IH accepts_def console_warn_def createObjectURL_def)
qed

lemma new_tracks_urls:
  "map url (new_tracks fs n) = [n ..< n + length (new_tracks fs n)]"
proof (induction fs arbitrary: n)
  case Nil
  show ?case by simp
next
  case (Cons f fs)
  show ?case
    by (simp add: Cons.IH upt_rec[of n])
qed

lemma new_tracks_files: "map file_obj (new_tracks fs n) = filter accepts fs"
  by (induction fs arbitrary: n) simp_all

lemma filter_accepts_new_tracks: "filter accepts fs = [] \<longleftrightarrow> new_tracks fs n = []"
  using new_tracks_files[of fs n] by (metis map_is_Nil_conv)

lemma added_fields [simp]:
  "playlist (added fs s) = playlist s @ new_tracks fs (nextUrl s)"
  "currentTrackIndex (added fs s) = currentTrackIndex s"
  "isPlaying (added fs s) = isPlaying s"
  "audioPlayer (added fs s) = audioPlayer s"
  "trace (added fs s) = trace s"
  "nextUrl (added fs s) = nextUrl s + length (new_tracks fs (nextUrl s))"
  "console (added fs s) = console s @ warnings fs"
  "playlistItems (added fs s) = playlistItems s"
  by (simp_all add: added_def Let_def showNotification_def)

lemma handleFiles_eq:
  "handleFiles hides fs s =
     (if new_tracks fs (nextUrl s) \<noteq> [] then
        (if renders hides (added fs s) then
           (if currentTrackIndex s = - 1 then loadTrack hides 0 (rendered hides (added fs s))
            else Inr (rendered hides (added fs s)))
         else Inl (TypeError, rendered hides (added fs s)))
      else Inr (added fs s))"
  by (simp add: handleFiles_def handleFiles_loop_eq added_def Let_def showNotification_def
      renderPlaylist_eq renders_def rendered_def)

text \<open>Whether \<^verbatim>\<open>handleFiles\<close> reaches its call of \<^verbatim>\<open>loadTrack(0)\<close>.\<close>

lemma handleFiles_core:
  "playlist (state_of (handleFiles hides fs s)) = playlist s @ new_tracks fs (nextUrl s)"
  "revoked (trace (state_of (handleFiles hides fs s))) = revoked (trace s)"
  "nextUrl (state_of (handleFiles hides fs s)) = nextUrl s + length (new_tracks fs (nextUrl s))"
  "console (state_of (handleFiles hides fs s)) = console s @ warnings fs"
  by (simp_all add: handleFiles_eq loadTrack_core)

lemma handleFiles_selection:
  "currentTrackIndex (state_of (handleFiles hides fs s)) =
     (if currentTrackIndex s = - 1 \<and> new_tracks fs (nextUrl s) \<noteq> [] \<and> renders hides (added fs s)
      then 0 else currentTrackIndex s)"
  "src (audioPlayer (state_of (handleFiles hides fs s))) =
     (if currentTrackIndex s = - 1 \<and> new_tracks fs (nextUrl s) \<noteq> [] \<and> renders hides (added fs s)
      then Some (url (hd (playlist s @ new_tracks fs (nextUrl s))))
      else src (audioPlayer s))"
proof -
  have i: "index_at (playlist s @ new_tracks fs (nextUrl s)) 0
      = Some (hd (playlist s @ new_tracks fs (nextUrl s)))"
    if "new_tracks fs (nextUrl s) \<noteq> []"
    using that by (cases "playlist s @ new_tracks fs (nextUrl s)") (auto simp: index_at_def)
  show "currentTrackIndex (state_of (handleFiles hides fs s)) =
     (if currentTrackIndex s = - 1 \<and> new_tracks fs (nextUrl s) \<noteq> [] \<and> renders hides (added fs s)
      then 0 else currentTrackIndex s)"
    by (simp add: handleFiles_eq loadTrack_core)
  show "src (audioPlayer (state_of (handleFiles hides fs s))) =
     (if currentTrackIndex s = - 1 \<and> new_tracks fs (nextUrl s) \<noteq> [] \<and> renders hides (added fs s)
      then Some (url (hd (playlist s @ new_tracks fs (nextUrl s))))
      else src (audioPlayer s))"
    using i by (simp add: handleFiles_eq loadTrack_core)
qed

lemma handleFiles_rows:
  assumes "rows_ok s"
  shows "rows_ok (state_of (handleFiles hides fs s))"
proof (cases "new_tracks fs (nextUrl s) = []")
  case True
  then show ?thesis using assms by (simp add: handleFiles_eq rows_ok_def)
next
  case False
  let ?a = "added fs s"
  have r: "length (playlistItems (rendered hides ?a)) \<le> length (playlist ?a)"
    by (rule length_rows_rendered)
  obtain t where t: "index_at (playlist (rendered hides ?a)) 0 = Some t"
    using False by (cases "playlist s @ new_tracks fs (nextUrl s)") (auto simp: index_at_def)
  have l: "length (playlistItems (state_of (loadTrack hides 0 (rendered hides ?a))))
      \<le> length (playlist ?a)"
    using loadTrack_rows[OF t, of hides] by simp
  show ?thesis
    using False r l by (simp add: handleFiles_eq rows_ok_def loadTrack_core)
qed

lemma handleFiles_000_loop_fields:
  "currentTrackIndex (handleFiles_000_loop fs s) = currentTrackIndex s"
  "audioPlayer (handleFiles_000_loop fs s) = audioPlayer s"
  "isPlaying (handleFiles_000_loop fs s) = isPlaying s"
  "map file_obj (playlist (handleFiles_000_loop fs s))
     = map file_obj (playlist s) @ filter accepts_000 fs"
  by (induction fs arbitrary: s) (simp_all add: createObjectURL_def accepts_000_def)

lemma handleFiles_000_loop_Nil:
  "playlist (handleFiles_000_loop fs s) = [] \<longleftrightarrow> playlist s = [] \<and> filter accepts_000 fs = []"
  using handleFiles_000_loop_fields(4)[of fs s]
  by (metis append_is_Nil_conv map_is_Nil_conv)

lemma handleFiles_000_eq:
  "handleFiles_000 hides fs s =
     (if playlist (handleFiles_000_loop fs s) \<noteq> [] then
        (if renders hides (handleFiles_000_loop fs s) then
           (if currentTrackIndex s = - 1
            then loadTrack hides 0 (rendered hides (handleFiles_000_loop fs s))
            else Inr (rendered hides (handleFiles_000_loop fs s)))
         else Inl (TypeError, rendered hides (handleFiles_000_loop fs s)))
      else Inr (handleFiles_000_loop fs s))"
  by (simp add: handleFiles_000_def Let_def renderPlaylist_eq handleFiles_000_loop_fields)

subsection \<open>Removing a track\<close>

lemma removeTrack_invalid:
  "index_at (playlist s) i = None \<Longrightarrow> removeTrack hides i s = Inl (TypeError, s)"
  by (simp add: removeTrack_def)

lemma removed_fields [simp]:
  "playlist (removed i s) = splice1 (playlist s) i"
  "currentTrackIndex (removed i s) = currentTrackIndex s"
  "isPlaying (removed i s) = isPlaying s"
  "audioPlayer (removed i s) = audioPlayer s"
  "trace (removed i s) = trace s @ [Revoke (url (playlist s ! nat i))]"
  "nextUrl (removed i s) = nextUrl s"
  "console (removed i s) = console s"
  by (simp_all add: removed_def)

lemma idle_fields [simp]:
  "playlist (idle s) = playlist s"
  "currentTrackIndex (idle s) = - 1"
  "\<not> isPlaying (idle s)"
  "audioPlayer (idle s) = \<lparr>src = None, paused = True\<rparr>"
  "trace (idle s) = trace s @ [SetSrc None]"
  "nextUrl (idle s) = nextUrl s"
  "console (idle s) = console s"
  by (simp_all add: idle_def set_src_def audio_pause_def)

lemma removeTrack_valid:
  assumes "index_at (playlist s) i = Some t"
  shows "removeTrack hides i s =
     and_then
       (if currentTrackIndex s = i then
          (if 1 < length (playlist s)
           then loadTrack hides (min i (int (length (playlist s)) - 2)) (removed i s)
           else Inr (idle (removed i s)))
        else if i < currentTrackIndex s
        then Inr ((removed i s)\<lparr>currentTrackIndex := currentTrackIndex s - 1\<rparr>)
        else Inr (removed i s))
       (renderPlaylist hides)"
proof -
  from assms have v: "0 \<le> i" "i < int (length (playlist s))" "t = playlist s ! nat i"
    by (auto simp: index_at_Some_iff)
  have len: "length (splice1 (playlist s) i) = length (playlist s) - 1"
    using v by (simp add: length_splice1_valid)
  have m: "int (length (playlist s) - 1) - 1 = int (length (playlist s)) - 2"
    using v by linarith
  have pos: "0 < length (playlist s) - 1 \<longleftrightarrow> 1 < length (playlist s)"
    by linarith
  have e: "(i = currentTrackIndex s) = (currentTrackIndex s = i)" by auto
  show ?thesis
    using assms v(3)
    by (simp add: removeTrack_def revokeObjectURL_def removed_def[symmetric] idle_def[symmetric]
        Let_def len m pos e del: One_nat_def)
qed

lemma and_then_render_fields [simp]:
  "playlist (state_of (and_then r (renderPlaylist hides))) = playlist (state_of r)"
  "currentTrackIndex (state_of (and_then r (renderPlaylist hides))) = currentTrackIndex (state_of r)"
  "isPlaying (state_of (and_then r (renderPlaylist hides))) = isPlaying (state_of r)"
  "audioPlayer (state_of (and_then r (renderPlaylist hides))) = audioPlayer (state_of r)"
  "trace (state_of (and_then r (renderPlaylist hides))) = trace (state_of r)"
  "nextUrl (state_of (and_then r (renderPlaylist hides))) = nextUrl (state_of r)"
  "console (state_of (and_then r (renderPlaylist hides))) = console (state_of r)"
  by (cases r; auto simp: renderPlaylist_eq)+

lemma and_then_render_returns:
  "(\<exists>s'. and_then r (renderPlaylist hides) = Inr s') \<longleftrightarrow>
     (\<exists>x. r = Inr x) \<and> renders hides (state_of r)"
  by (cases r) (auto simp: renderPlaylist_eq)

lemma removeTrack_valid_len:
  assumes "index_at (playlist s) i = Some t"
  shows "0 \<le> i" "i < int (length (playlist s))" "playlist s ! nat i = t"
    "length (splice1 (playlist s) i) = length (playlist s) - 1"
    "1 < length (playlist s) \<Longrightarrow>
       index_at (splice1 (playlist s) i) (min i (int (length (playlist s)) - 2))
         = Some (splice1 (playlist s) i ! nat (min i (int (length (playlist s)) - 2)))"
proof -
  from assms show v: "0 \<le> i" "i < int (length (playlist s))" "playlist s ! nat i = t"
    by (auto simp: index_at_Some_iff)
  show len: "length (splice1 (playlist s) i) = length (playlist s) - 1"
    using v by (simp add: length_splice1_valid)
  show "index_at (splice1 (playlist s) i) (min i (int (length (playlist s)) - 2))
         = Some (splice1 (playlist s) i ! nat (min i (int (length (playlist s)) - 2)))"
    if "1 < length (playlist s)"
    using v that by (auto simp: index_at_def len)
qed

text \<open>What \<^verbatim>\<open>removeTrack\<close> leaves at a valid index, whether it throws or not.\<close>

lemma removeTrack_core:
  assumes "index_at (playlist s) i = Some t"
  shows "playlist (state_of (removeTrack hides i s)) = splice1 (playlist s) i"
    and "revoked (trace (state_of (removeTrack hides i s))) = revoked (trace s) @ [url t]"
    and "nextUrl (state_of (removeTrack hides i s)) = nextUrl s"
    and "console (state_of (removeTrack hides i s)) = console s"
    and "currentTrackIndex (state_of (removeTrack hides i s)) =
       (if currentTrackIndex s = i
        then (if 1 < length (playlist s) then min i (int (length (playlist s)) - 2) else - 1)
        else if i < currentTrackIndex s then currentTrackIndex s - 1
        else currentTrackIndex s)"
    and "src (audioPlayer (state_of (removeTrack hides i s))) =
       (if currentTrackIndex s = i
        then (if 1 < length (playlist s)
              then Some (url (splice1 (playlist s) i ! nat (min i (int (length (playlist s)) - 2))))
              else None)
        else src (audioPlayer s))"
proof -
  note v = removeTrack_valid_len[OF assms]
  show "playlist (state_of (removeTrack hides i s)) = splice1 (playlist s) i"
    by (simp add: removeTrack_valid[OF assms] loadTrack_core)
  show "revoked (trace (state_of (removeTrack hides i s))) = revoked (trace s) @ [url t]"
    using v(3) by (simp add: removeTrack_valid[OF assms] loadTrack_core)
  show "nextUrl (state_of (removeTrack hides i s)) = nextUrl s"
    by (simp add: removeTrack_valid[OF assms] loadTrack_core)
  show "console (state_of (removeTrack hides i s)) = console s"
    by (simp add: removeTrack_valid[OF assms] loadTrack_core)
  show "currentTrackIndex (state_of (removeTrack hides i s)) =
       (if currentTrackIndex s = i
        then (if 1 < length (playlist s) then min i (int (length (playlist s)) - 2) else - 1)
        else if i < currentTrackIndex s then currentTrackIndex s - 1
        else currentTrackIndex s)"
    by (simp add: removeTrack_valid[OF assms] loadTrack_core)
  show "src (audioPlayer (state_of (removeTrack hides i s))) =
       (if currentTrackIndex s = i
        then (if 1 < length (playlist s)
              then Some (url (splice1 (playlist s) i ! nat (min i (int (length (playlist s)) - 2))))
              else None)
        else src (audioPlayer s))"
    using v(5) by (simp add: removeTrack_valid[OF assms] loadTrack_core)
qed

lemma removeTrack_rows:
  assumes "index_at (playlist s) i = Some t"
  shows "rows_ok (state_of (removeTrack hides i s))"
proof -
  note v = removeTrack_valid_len[OF assms]
  have an: "length (playlistItems (state_of (and_then r (renderPlaylist hides))))
      \<le> length (playlist (state_of r))"
    if "length (playlistItems (state_of r)) \<le> length (playlist (state_of r)) \<or> (\<exists>x. r = Inr x)"
    for r
    using that length_rows_rendered[of hides "state_of r"]
    by (cases r) (auto simp: renderPlaylist_eq)
  have ld: "length (playlistItems (state_of (loadTrack hides j (removed i s))))
      \<le> length (playlist (state_of (loadTrack hides j (removed i s))))"
    if "index_at (playlist (removed i s)) j = Some u" for j u
    using loadTrack_rows[OF that, of hides] by (simp add: loadTrack_core)
  show ?thesis
    unfolding rows_ok_def and_then_render_fields removeTrack_valid[OF assms]
    apply (rule an)
    using ld v(5) by auto
qed

subsection \<open>The URLs of the page\<close>

lemma urls_ok_cong:
  "playlist s' = playlist s \<Longrightarrow> revoked (trace s') = revoked (trace s) \<Longrightarrow>
   nextUrl s' = nextUrl s \<Longrightarrow> urls_ok s' = urls_ok s"
  by (simp add: urls_ok_def)

lemma urls_ok_loadTrack: "urls_ok (state_of (loadTrack hides i s)) = urls_ok s"
  by (rule urls_ok_cong) (simp_all add: loadTrack_core)

lemma urls_ok_handleFiles:
  assumes "urls_ok s"
  shows "urls_ok (state_of (handleFiles hides fs s))"
proof -
  let ?n = "nextUrl s" and ?k = "length (new_tracks fs (nextUrl s))"
  let ?old = "map url (playlist s) @ revoked (trace s)"
  have d: "distinct ?old" and b: "set ?old = {..< ?n}"
    using assms by (simp_all add: urls_ok_def)
  have fresh: "set [?n ..< ?n + ?k] \<inter> set ?old = {}"
    unfolding b by auto
  have "distinct (map url (playlist s) @ [?n ..< ?n + ?k] @ revoked (trace s))"
    unfolding distinct_middle using d fresh by simp
  moreover have "set (map url (playlist s) @ [?n ..< ?n + ?k] @ revoked (trace s))
      = set ?old \<union> {?n ..< ?n + ?k}"
    by auto
  moreover have "{..< ?n} \<union> {?n ..< ?n + ?k} = {..< ?n + ?k}"
    by auto
  ultimately show ?thesis
    unfolding urls_ok_def b by (simp add: handleFiles_core new_tracks_urls)
qed

lemma urls_ok_removeTrack:
  assumes "urls_ok s"
  shows "urls_ok (state_of (removeTrack hides i s))"
proof (cases "index_at (playlist s) i")
  case None
  then show ?thesis using assms by (simp add: removeTrack_invalid)
next
  case (Some t)
  note v = removeTrack_valid_len[OF Some]
  let ?xs = "playlist s" and ?k = "nat i"
  have k: "?k < length ?xs" using v by simp
  have dec: "?xs = take ?k ?xs @ ?xs ! ?k # drop (Suc ?k) ?xs"
    using k by (simp add: id_take_nth_drop[symmetric])
  have m: "map url ?xs = map url (take ?k ?xs) @ url t # map url (drop (Suc ?k) ?xs)"
    by (subst dec) (simp add: v(3))
  show ?thesis
    using assms unfolding urls_ok_def removeTrack_core[OF Some] splice1_valid[OF v(1,2)] m
    by auto
qed

subsection \<open>The selection under additions and removals\<close>

lemma in_range_handleFiles:
  assumes "in_range s"
  shows "in_range (state_of (handleFiles hides fs s))"
proof (cases "currentTrackIndex s = - 1 \<and> new_tracks fs (nextUrl s) \<noteq> [] \<and>
    renders hides (added fs s)")
  case True
  then have "0 < int (length (playlist s)) + int (length (new_tracks fs (nextUrl s)))"
    by (cases "new_tracks fs (nextUrl s)") auto
  then show ?thesis
    using True by (simp add: in_range_def handleFiles_core handleFiles_selection)
next
  case False
  then show ?thesis
    using assms by (auto simp: in_range_def handleFiles_core handleFiles_selection)
qed

lemma in_range_removeTrack:
  assumes "in_range s"
  shows "in_range (state_of (removeTrack hides i s))"
proof (cases "index_at (playlist s) i")
  case None
  then show ?thesis using assms by (simp add: removeTrack_invalid)
next
  case (Some t)
  note v = removeTrack_valid_len[OF Some]
  show ?thesis
    using assms v(1,2) unfolding in_range_def removeTrack_core[OF Some] v(4)
    by (auto split: if_splits)
qed

lemma in_range_step: "in_range s \<Longrightarrow> in_range (step hides s x)"
  by (cases x) (simp_all add: in_range_handleFiles in_range_removeTrack)

lemma in_range_run: "in_range s \<Longrightarrow> in_range (run hides s ops)"
  unfolding run_def by (induction ops arbitrary: s) (simp_all add: in_range_step)

lemma in_range_initial: "in_range initial"
  by (simp add: in_range_def initial_def)

subsection \<open>The invariant of the page\<close>

lemma page_ok_initial: "page_ok initial"
  by (simp add: page_ok_def index_ok_def src_ok_def urls_ok_def rows_ok_def initial_def)

lemma page_ok_loadTrack_valid:
  assumes "page_ok s" and "index_at (playlist s) i = Some t"
  shows "page_ok (state_of (loadTrack hides i s))"
proof -
  from assms(2) have v: "0 \<le> i" "i < int (length (playlist s))"
    by (auto simp: index_at_Some_iff)
  have "index_ok (state_of (loadTrack hides i s))"
    using v by (simp add: index_ok_def loadTrack_core)
  moreover have "src_ok (state_of (loadTrack hides i s))"
    by (simp add: src_ok_def loadTrack_core assms(2))
  moreover have "urls_ok (state_of (loadTrack hides i s))"
    using assms(1) by (simp add: urls_ok_loadTrack page_ok_def)
  moreover have "rows_ok (state_of (loadTrack hides i s))"
    using loadTrack_rows[OF assms(2), of hides] by (simp add: rows_ok_def loadTrack_core)
  ultimately show ?thesis by (simp add: page_ok_def)
qed

lemma page_ok_loadTrack_empty:
  assumes "page_ok s" and "playlist s = []" and "i = 0 \<or> i = - 1"
  shows "page_ok (state_of (loadTrack hides i s))"
proof -
  have n: "index_at (playlist s) j = None" for j
    by (simp add: index_at_def assms(2))
  have e: "state_of (loadTrack hides i s) = s\<lparr>currentTrackIndex := i\<rparr>"
    by (simp add: loadTrack_invalid[OF n])
  have "src_ok s" using assms(1) by (simp add: page_ok_def)
  then have sn: "src (audioPlayer s) = None"
    by (cases "src (audioPlayer s)") (simp_all add: src_ok_def n)
  have "index_ok (s\<lparr>currentTrackIndex := i\<rparr>)"
    using assms(3) by (auto simp: index_ok_def)
  moreover have "src_ok (s\<lparr>currentTrackIndex := i\<rparr>)"
    by (simp add: src_ok_def sn)
  moreover have "urls_ok (s\<lparr>currentTrackIndex := i\<rparr>)"
    using assms(1) by (simp add: page_ok_def urls_ok_def)
  moreover have "rows_ok (s\<lparr>currentTrackIndex := i\<rparr>)"
    using assms(1) by (simp add: page_ok_def rows_ok_def)
  ultimately show ?thesis unfolding e by (simp add: page_ok_def)
qed

lemma page_ok_playNext:
  assumes "page_ok s"
  shows "page_ok (state_of (playNext hides s))"
proof (cases "playlist s = []")
  case True
  then have "playNext hides s = loadTrack hides 0 s"
    using assms by (auto simp: playNext_def page_ok_def index_ok_def)
  then show ?thesis using assms True by (simp add: page_ok_loadTrack_empty)
next
  case False
  have b: "- 1 \<le> currentTrackIndex s" using assms by (simp add: page_ok_def index_ok_def)
  have l: "0 < length (playlist s)" using False by simp
  show ?thesis
  proof (cases "currentTrackIndex s < int (length (playlist s)) - 1")
    case True
    then have "index_at (playlist s) (currentTrackIndex s + 1)
        = Some (playlist s ! nat (currentTrackIndex s + 1))"
      using b by (simp add: index_at_def)
    then show ?thesis using assms True by (simp add: playNext_def page_ok_loadTrack_valid)
  next
    case False
    have "index_at (playlist s) 0 = Some (playlist s ! nat 0)"
      using l by (simp add: index_at_def)
    then show ?thesis using assms False by (simp add: playNext_def page_ok_loadTrack_valid)
  qed
qed

lemma page_ok_playPrev:
  assumes "page_ok s"
  shows "page_ok (state_of (playPrev hides s))"
proof (cases "0 < currentTrackIndex s")
  case True
  then have "currentTrackIndex s < int (length (playlist s))"
    using assms by (auto simp: page_ok_def index_ok_def)
  then have "index_at (playlist s) (currentTrackIndex s - 1)
      = Some (playlist s ! nat (currentTrackIndex s - 1))"
    using True by (simp add: index_at_def)
  then show ?thesis using assms True by (simp add: playPrev_def page_ok_loadTrack_valid)
next
  case False
  show ?thesis
  proof (cases "playlist s = []")
    case True
    then show ?thesis using assms False by (simp add: playPrev_def page_ok_loadTrack_empty)
  next
    case ne: False
    then have "0 < length (playlist s)" by simp
    then have "index_at (playlist s) (int (length (playlist s)) - 1)
        = Some (playlist s ! nat (int (length (playlist s)) - 1))"
      by (simp add: index_at_def)
    then show ?thesis using assms False by (simp add: playPrev_def page_ok_loadTrack_valid)
  qed
qed

lemma page_ok_frame:
  assumes "page_ok s" and "playlist s' = playlist s"
    and "currentTrackIndex s' = currentTrackIndex s"
    and "src (audioPlayer s') = src (audioPlayer s)" and "trace s' = trace s"
    and "nextUrl s' = nextUrl s" and "playlistItems s' = playlistItems s"
  shows "page_ok s'"
  using assms by (simp add: page_ok_def index_ok_def src_ok_def urls_ok_def rows_ok_def
      cong: option.case_cong)

lemma page_ok_togglePlay:
  assumes "page_ok s"
  shows "page_ok (state_of (togglePlay hides s))"
proof (cases "currentTrackIndex s = - 1 \<and> playlist s \<noteq> []")
  case True
  then have "0 < length (playlist s)" by simp
  then have "index_at (playlist s) 0 = Some (playlist s ! nat 0)"
    by (simp add: index_at_def)
  then show ?thesis using assms True by (simp add: togglePlay_def page_ok_loadTrack_valid)
next
  case False
  have "page_ok s'" if "s' = showNotification m k s \<or> s' = pauseTrack s \<or> s' = playTrack s"
    for s' m k
    using that by (auto intro!: page_ok_frame[OF assms] simp: showNotification_def)
  then show ?thesis using False by (auto simp: togglePlay_def)
qed

lemma page_ok_handleAudioError: "page_ok s \<Longrightarrow> page_ok (handleAudioError s)"
  by (erule page_ok_frame) (simp_all add: handleAudioError_def showNotification_def)

lemma page_ok_handleFiles:
  assumes "page_ok s"
  shows "page_ok (state_of (handleFiles hides fs s))"
proof -
  let ?s' = "state_of (handleFiles hides fs s)"
  let ?new = "new_tracks fs (nextUrl s)"
  let ?go = "currentTrackIndex s = - 1 \<and> ?new \<noteq> [] \<and> renders hides (added fs s)"
  have ap: "index_at (playlist s @ ?new) j = index_at (playlist s) j"
    if "j < int (length (playlist s))" for j
    using that by (auto simp: index_at_def nth_append)
  have hd0: "index_at (playlist s @ ?new) 0 = Some (hd (playlist s @ ?new))" if "?new \<noteq> []"
    using that by (cases "playlist s @ ?new") (auto simp: index_at_def)
  have "index_ok ?s'"
  proof (cases ?go)
    case True
    then have "0 < int (length (playlist s)) + int (length ?new)"
      by (cases ?new) auto
    then show ?thesis using True by (simp add: index_ok_def handleFiles_core handleFiles_selection)
  next
    case False
    then show ?thesis
      using assms by (auto simp: page_ok_def index_ok_def handleFiles_core handleFiles_selection)
  qed
  moreover have "src_ok ?s'"
  proof (cases ?go)
    case True
    then show ?thesis
      by (simp add: src_ok_def handleFiles_core handleFiles_selection hd0)
  next
    case False
    then have sel: "currentTrackIndex ?s' = currentTrackIndex s"
        "src (audioPlayer ?s') = src (audioPlayer s)"
      by (simp_all only: handleFiles_selection if_False)
    show ?thesis
    proof (cases "src (audioPlayer s)")
      case None
      then show ?thesis by (simp add: src_ok_def sel)
    next
      case (Some u)
      then have u: "map_option url (index_at (playlist s) (currentTrackIndex s)) = Some u"
        using assms by (simp add: page_ok_def src_ok_def)
      then have "currentTrackIndex s < int (length (playlist s))"
        by (auto simp: index_at_def split: if_splits)
      then show ?thesis
        using Some u by (simp add: src_ok_def handleFiles_core sel ap)
    qed
  qed
  moreover have "urls_ok ?s'"
    using assms by (simp add: page_ok_def urls_ok_handleFiles)
  moreover have "rows_ok ?s'"
    using assms by (simp add: page_ok_def handleFiles_rows)
  ultimately show ?thesis by (simp add: page_ok_def)
qed

lemma page_ok_removeTrack:
  assumes "page_ok s"
  shows "page_ok (state_of (removeTrack hides i s))"
proof (cases "index_at (playlist s) i")
  case None
  then show ?thesis using assms by (simp add: removeTrack_invalid)
next
  case (Some t)
  note v = removeTrack_valid_len[OF Some]
  note core = removeTrack_core[OF Some]
  let ?s' = "state_of (removeTrack hides i s)"
  let ?c = "currentTrackIndex s"
  have io: "- 1 \<le> ?c" "?c < int (length (playlist s)) \<or> ?c = 0"
    using assms by (simp_all add: page_ok_def index_ok_def)
  have so: "src (audioPlayer s) = None \<or>
      (0 \<le> ?c \<and> ?c < int (length (playlist s)) \<and>
       src (audioPlayer s) = Some (url (playlist s ! nat ?c)))"
    using assms by (auto simp: page_ok_def src_ok_def index_at_def split: option.splits if_splits)
  have "index_ok ?s'"
    using io v(1,2) unfolding index_ok_def core v(4) by (auto split: if_splits)
  moreover have "src_ok ?s'"
  proof (cases "?c = i")
    case True
    then show ?thesis
      using v(5) unfolding src_ok_def core by (auto split: option.splits)
  next
    case False
    show ?thesis
    proof (cases "src (audioPlayer s)")
      case None
      then show ?thesis using False unfolding src_ok_def core by simp
    next
      case (Some u)
      then have c: "0 \<le> ?c" "?c < int (length (playlist s))" "u = url (playlist s ! nat ?c)"
        using so by auto
      show ?thesis
      proof (cases "i < ?c")
        case True
        have "splice1 (playlist s) i ! nat (?c - 1) = playlist s ! Suc (nat (?c - 1))"
          using v c True by (intro nth_splice1_above) auto
        moreover have "Suc (nat (?c - 1)) = nat ?c"
          using v True by linarith
        ultimately show ?thesis
          using True False Some c v(1,2) unfolding src_ok_def core
          by (simp add: index_at_def v(4))
      next
        case above: False
        then have lt: "?c < i" using False by linarith
        have "splice1 (playlist s) i ! nat ?c = playlist s ! nat ?c"
          using v c lt by (intro nth_splice1_below) auto
        then show ?thesis
          using above False Some c v(1,2) lt unfolding src_ok_def core
          by (simp add: index_at_def v(4))
      qed
    qed
  qed
  moreover have "urls_ok ?s'"
    using assms by (simp add: page_ok_def urls_ok_removeTrack)
  moreover have "rows_ok ?s'"
    by (rule removeTrack_rows[OF Some])
  ultimately show ?thesis by (simp add: page_ok_def)
qed

lemma has_row_valid:
  assumes "page_ok s" and "has_row s i"
  shows "index_at (playlist s) i = Some (playlist s ! nat i)"
  using assms by (simp add: page_ok_def rows_ok_def has_row_def index_at_def)

lemma page_ok_react: "page_ok s \<Longrightarrow> page_ok (react hides s g)"
  by (cases g)
    (simp_all add: page_ok_handleFiles page_ok_removeTrack page_ok_togglePlay page_ok_playPrev
      page_ok_playNext page_ok_handleAudioError page_ok_loadTrack_valid[OF _ has_row_valid])

lemma page_ok_session: "page_ok (foldl (react hides) initial gs)"
proof -
  have "page_ok s \<Longrightarrow> page_ok (foldl (react hides) s gs)" for s
    by (induction gs arbitrary: s) (simp_all add: page_ok_react)
  then show ?thesis using page_ok_initial .
qed

subsection \<open>The example states\<close>

lemma loadTrack_fields:
  assumes "index_at (playlist s) i = Some t" and "renders hides s"
  shows "playlist (state_of (loadTrack hides i s)) = playlist s"
    and "currentTrackIndex (state_of (loadTrack hides i s)) = i"
    and "audioPlayer (state_of (loadTrack hides i s)) = \<lparr>src = Some (url t), paused = False\<rparr>"
    and "isPlaying (state_of (loadTrack hides i s))"
    and "trace (state_of (loadTrack hides i s)) = trace s @ [SetSrc (Some (url t))]"
    and "nextUrl (state_of (loadTrack hides i s)) = nextUrl s"
    and "length (playlistItems (state_of (loadTrack hides i s))) = length (playlist s)"
  using assms rows_rendered_all[of hides "selected i t s"]
  by (simp_all add: loadTrack_valid[OF assms(1)])

lemma loadTrack_returns:
  assumes "index_at (playlist s) i = Some t" and "renders hides s"
  shows "loadTrack hides i s = Inr (state_of (loadTrack hides i s))"
  using assms by (simp add: loadTrack_valid[OF assms(1)])

lemma accepts_song: "accepts (song n)"
  by (simp add: accepts_def song_def MAX_FILE_SIZE_def checkIfMp3_def validMimeTypes_def)

lemma accepts_000_song: "accepts_000 (song n)"
  by (simp add: accepts_000_def song_def)

lemma fname_song: "fname (song n) = n"
  by (simp add: song_def)

lemma stripExtension_examples:
  "stripExtension ''a.mp3'' = ''a''" "stripExtension ''b.mp3'' = ''b''"
  "stripExtension ''c.mp3'' = ''c''" "stripExtension ''<!--.mp3'' = ''<!--''"
  by (simp_all add: stripExtension_def)

lemmas example_simps = accepts_song fname_song stripExtension_examples

lemma initial_fields:
  "playlist initial = []" "currentTrackIndex initial = - 1" "\<not> isPlaying initial"
  "audioPlayer initial = \<lparr>src = None, paused = True\<rparr>" "trace initial = []"
  "nextUrl initial = 0" "playlistItems initial = []" "console initial = []"
  by (simp_all add: initial_def)

lemma one_track_fields:
  "playlist one_track = [\<lparr>name = ''a'', file_obj = song ''a.mp3'', url = 0\<rparr>]"
  "currentTrackIndex one_track = 0"
  "audioPlayer one_track = \<lparr>src = Some 0, paused = False\<rparr>"
  "isPlaying one_track"
  "trace one_track = [SetSrc (Some 0)]"
  "nextUrl one_track = 1"
  "length (playlistItems one_track) = 1"
proof -
  let ?a = "added [song ''a.mp3''] initial"
  let ?s = "rendered example_parser ?a"
  have nt: "new_tracks [song ''a.mp3''] 0 = [\<lparr>name = ''a'', file_obj = song ''a.mp3'', url = 0\<rparr>]"
    by (simp add: accepts_song fname_song stripExtension_examples)
  have r: "renders example_parser ?a"
    by (simp add: renders_def initial_fields nt example_simps example_parser_def)
  then have r': "renders example_parser ?s" by simp
  have i: "index_at (playlist ?s) 0 = Some \<lparr>name = ''a'', file_obj = song ''a.mp3'', url = 0\<rparr>"
    by (simp add: initial_fields nt example_simps index_at_def)
  have e: "one_track = state_of (loadTrack example_parser 0 ?s)"
    by (simp add: one_track_def handleFiles_eq initial_fields nt example_simps r)
  show "playlist one_track = [\<lparr>name = ''a'', file_obj = song ''a.mp3'', url = 0\<rparr>]"
    "currentTrackIndex one_track = 0" "isPlaying one_track"
    "audioPlayer one_track = \<lparr>src = Some 0, paused = False\<rparr>"
    "trace one_track = [SetSrc (Some 0)]" "nextUrl one_track = 1"
    "length (playlistItems one_track) = 1"
    by (simp_all add: e loadTrack_fields[OF i r'] initial_fields nt example_simps)
qed

lemma two_tracks_fields:
  "playlist two_tracks =
     [\<lparr>name = ''a'', file_obj = song ''a.mp3'', url = 0\<rparr>,
      \<lparr>name = ''b'', file_obj = song ''b.mp3'', url = 1\<rparr>]"
  "currentTrackIndex two_tracks = 0"
  "audioPlayer two_tracks = \<lparr>src = Some 0, paused = False\<rparr>"
  "isPlaying two_tracks"
  "trace two_tracks = [SetSrc (Some 0)]"
  "nextUrl two_tracks = 2"
  "length (playlistItems two_tracks) = 2"
proof -
  let ?a = "added [song ''a.mp3'', song ''b.mp3''] initial"
  let ?s = "rendered example_parser ?a"
  have nt: "new_tracks [song ''a.mp3'', song ''b.mp3''] 0 =
     [\<lparr>name = ''a'', file_obj = song ''a.mp3'', url = 0\<rparr>,
      \<lparr>name = ''b'', file_obj = song ''b.mp3'', url = 1\<rparr>]"
    by (simp add: accepts_song fname_song stripExtension_examples)
  have r: "renders example_parser ?a"
    by (simp add: renders_def initial_fields nt example_simps example_parser_def)
  then have r': "renders example_parser ?s" by simp
  have i: "index_at (playlist ?s) 0 = Some \<lparr>name = ''a'', file_obj = song ''a.mp3'', url = 0\<rparr>"
    by (simp add: initial_fields nt example_simps index_at_def)
  have e: "two_tracks = state_of (loadTrack example_parser 0 ?s)"
    by (simp add: two_tracks_def handleFiles_eq initial_fields nt example_simps r)
  show "playlist two_tracks =
     [\<lparr>name = ''a'', file_obj = song ''a.mp3'', url = 0\<rparr>,
      \<lparr>name = ''b'', file_obj = song ''b.mp3'', url = 1\<rparr>]"
    "currentTrackIndex two_tracks = 0" "isPlaying two_tracks"
    "audioPlayer two_tracks = \<lparr>src = Some 0, paused = False\<rparr>"
    "trace two_tracks = [SetSrc (Some 0)]" "nextUrl two_tracks = 2"
    "length (playlistItems two_tracks) = 2"
    by (simp_all add: e loadTrack_fields[OF i r'] initial_fields nt example_simps)
qed

lemma renders_two_tracks: "renders example_parser two_tracks"
  by (simp add: renders_def two_tracks_fields example_parser_def)

lemma second_selected_fields:
  "playlist second_selected = playlist two_tracks"
  "currentTrackIndex second_selected = 1"
  "audioPlayer second_selected = \<lparr>src = Some 1, paused = False\<rparr>"
  "isPlaying second_selected"
  "trace second_selected = [SetSrc (Some 0), SetSrc (Some 1)]"
  "nextUrl second_selected = 2"
  "length (playlistItems second_selected) = 2"
proof -
  have i: "index_at (playlist two_tracks) 1 = Some \<lparr>name = ''b'', file_obj = song ''b.mp3'', url = 1\<rparr>"
    by (simp add: two_tracks_fields index_at_def)
  show "playlist second_selected = playlist two_tracks"
    "currentTrackIndex second_selected = 1" "isPlaying second_selected"
    "audioPlayer second_selected = \<lparr>src = Some 1, paused = False\<rparr>"
    "trace second_selected = [SetSrc (Some 0), SetSrc (Some 1)]"
    "nextUrl second_selected = 2"
    "length (playlistItems second_selected) = 2"
    by (simp_all add: second_selected_def loadTrack_fields[OF i renders_two_tracks]
        two_tracks_fields)
qed

lemma three_tracks_fields:
  "playlist three_tracks =
     [\<lparr>name = ''a'', file_obj = song ''a.mp3'', url = 0\<rparr>,
      \<lparr>name = ''b'', file_obj = song ''b.mp3'', url = 1\<rparr>,
      \<lparr>name = ''c'', file_obj = song ''c.mp3'', url = 2\<rparr>]"
  "currentTrackIndex three_tracks = 0"
  "audioPlayer three_tracks = \<lparr>src = Some 0, paused = False\<rparr>"
  "isPlaying three_tracks"
proof -
  let ?fs = "[song ''a.mp3'', song ''b.mp3'', song ''c.mp3'']"
  let ?a = "added ?fs initial"
  let ?s = "rendered example_parser ?a"
  have nt: "new_tracks ?fs 0 =
     [\<lparr>name = ''a'', file_obj = song ''a.mp3'', url = 0\<rparr>,
      \<lparr>name = ''b'', file_obj = song ''b.mp3'', url = 1\<rparr>,
      \<lparr>name = ''c'', file_obj = song ''c.mp3'', url = 2\<rparr>]"
    by (simp add: accepts_song fname_song stripExtension_examples)
  have r: "renders example_parser ?a"
    by (simp add: renders_def initial_fields nt example_simps example_parser_def)
  then have r': "renders example_parser ?s" by simp
  have i: "index_at (playlist ?s) 0 = Some \<lparr>name = ''a'', file_obj = song ''a.mp3'', url = 0\<rparr>"
    by (simp add: initial_fields nt example_simps index_at_def)
  have e: "three_tracks = state_of (loadTrack example_parser 0 ?s)"
    by (simp add: three_tracks_def handleFiles_eq initial_fields nt example_simps r)
  show "playlist three_tracks =
     [\<lparr>name = ''a'', file_obj = song ''a.mp3'', url = 0\<rparr>,
      \<lparr>name = ''b'', file_obj = song ''b.mp3'', url = 1\<rparr>,
      \<lparr>name = ''c'', file_obj = song ''c.mp3'', url = 2\<rparr>]"
    "currentTrackIndex three_tracks = 0" "isPlaying three_tracks"
    "audioPlayer three_tracks = \<lparr>src = Some 0, paused = False\<rparr>"
    by (simp_all add: e loadTrack_fields[OF i r'] initial_fields nt example_simps)
qed

text \<open>
  The dropped file \<^verbatim>\<open><!--.mp3\<close> becomes the second track; the rendering that
  follows appends the first row and throws at the second.
\<close>

lemma markup_added_fields:
  "handleFiles example_parser [song ''<!--.mp3''] one_track = Inl (TypeError, markup_added)"
  "playlist markup_added =
     [\<lparr>name = ''a'', file_obj = song ''a.mp3'', url = 0\<rparr>,
      \<lparr>name = ''<!--'', file_obj = song ''<!--.mp3'', url = 1\<rparr>]"
  "currentTrackIndex markup_added = 0"
  "audioPlayer markup_added = \<lparr>src = Some 0, paused = False\<rparr>"
  "isPlaying markup_added"
  "trace markup_added = [SetSrc (Some 0)]"
  "nextUrl markup_added = 2"
  "playlistItems markup_added = [(''a'', True)]"
proof -
  let ?a = "added [song ''<!--.mp3''] one_track"
  have nt: "new_tracks [song ''<!--.mp3''] 1 =
      [\<lparr>name = ''<!--'', file_obj = song ''<!--.mp3'', url = 1\<rparr>]"
    by (simp add: accepts_song fname_song stripExtension_examples)
  have r: "\<not> renders example_parser ?a"
    by (simp add: renders_def one_track_fields nt example_simps example_parser_def)
  have h: "handleFiles example_parser [song ''<!--.mp3''] one_track
      = Inl (TypeError, rendered example_parser ?a)"
    by (simp add: handleFiles_eq one_track_fields nt example_simps r)
  then have e: "markup_added = rendered example_parser ?a"
    by (simp add: markup_added_def)
  show "handleFiles example_parser [song ''<!--.mp3''] one_track = Inl (TypeError, markup_added)"
    by (simp add: h e)
  show "playlist markup_added =
     [\<lparr>name = ''a'', file_obj = song ''a.mp3'', url = 0\<rparr>,
      \<lparr>name = ''<!--'', file_obj = song ''<!--.mp3'', url = 1\<rparr>]"
    "currentTrackIndex markup_added = 0"
    "audioPlayer markup_added = \<lparr>src = Some 0, paused = False\<rparr>"
    "isPlaying markup_added" "trace markup_added = [SetSrc (Some 0)]"
    "nextUrl markup_added = 2"
    by (simp_all add: e one_track_fields nt example_simps)
  show "playlistItems markup_added = [(''a'', True)]"
    by (simp add: e rendered_def one_track_fields nt example_simps example_parser_def)
qed

lemma markup_paused_fields:
  "togglePlay example_parser markup_added = Inr markup_paused"
  "playlist markup_paused = playlist markup_added"
  "currentTrackIndex markup_paused = 0"
  "audioPlayer markup_paused = \<lparr>src = Some 0, paused = True\<rparr>"
  "\<not> isPlaying markup_paused"
  "trace markup_paused = [SetSrc (Some 0)]"
  "nextUrl markup_paused = 2"
  "playlistItems markup_paused = [(''a'', True)]"
proof -
  have e: "togglePlay example_parser markup_added = Inr (pauseTrack markup_added)"
    by (simp add: togglePlay_def markup_added_fields)
  then have m: "markup_paused = pauseTrack markup_added"
    by (simp add: markup_paused_def)
  show "togglePlay example_parser markup_added = Inr markup_paused"
    by (simp add: e m)
  show "playlist markup_paused = playlist markup_added"
    "currentTrackIndex markup_paused = 0"
    "audioPlayer markup_paused = \<lparr>src = Some 0, paused = True\<rparr>"
    "\<not> isPlaying markup_paused"
    "trace markup_paused = [SetSrc (Some 0)]"
    "nextUrl markup_paused = 2"
    "playlistItems markup_paused = [(''a'', True)]"
    by (simp_all add: m markup_added_fields)
qed

subsection \<open>The selection stays in range\<close>

text \<open>
  Claim C1. After any sequence of additions and removals, started in the initial state,
  \<^verbatim>\<open>currentTrackIndex\<close> is \<open>-1\<close> or an index of the playlist:
  \<open>0 \<le> currentTrackIndex < length\<close>. A removal with an index out of range throws
  before it changes anything and is part of the sequences, and so is an operation that
  ends with an error while rendering, whatever names the parser takes for markup.
\<close>

theorem currentIndex_never_dangling: "currentTrackIndex (run hides initial ops) = - 1 \<or>
   (0 \<le> currentTrackIndex (run hides initial ops) \<and>
    currentTrackIndex (run hides initial ops) < int (length (playlist (run hides initial ops))))"
  using in_range_run[OF in_range_initial, of hides ops] by (simp add: in_range_def)

subsection \<open>Previous and next\<close>

text \<open>
  Claim C2, on the empty playlist. \<^verbatim>\<open>playNext\<close> calls \<^verbatim>\<open>loadTrack(0)\<close>,
  which stores the index and then throws on the missing track: the call is not a no-op,
  it leaves \<^verbatim>\<open>currentTrackIndex = 0\<close> with no track in the playlist.
  \<^verbatim>\<open>playPrev\<close> throws too, with the state as it was. The sibling
  \<^verbatim>\<open>togglePlay\<close> tests for the empty playlist and only shows a notice. A file
  added afterwards is not started, since \<^verbatim>\<open>handleFiles\<close> takes the index 0 for a
  track that plays.
\<close>

theorem playNext_empty_playlist_moves_index:
  "playNext hides initial = Inl (TypeError, initial\<lparr>currentTrackIndex := 0\<rparr>) \<and>
   playlist (state_of (playNext hides initial)) = [] \<and>
   currentTrackIndex (state_of (playNext hides initial)) = 0 \<and>
   playPrev hides initial = Inl (TypeError, initial) \<and>
   togglePlay hides initial =
     Inr (showNotification ''Please add MP3 files to the playlist'' Warning initial) \<and>
   playlist (state_of (handleFiles hides [song ''a.mp3''] (state_of (playNext hides initial)))) \<noteq> [] \<and>
   src (audioPlayer (state_of (handleFiles hides [song ''a.mp3''] (state_of (playNext hides initial)))))
     = None \<and>
   \<not> isPlaying (state_of (handleFiles hides [song ''a.mp3''] (state_of (playNext hides initial))))"
proof -
  have n: "playNext hides initial = Inl (TypeError, initial\<lparr>currentTrackIndex := 0\<rparr>)"
    by (simp add: playNext_def loadTrack_def initial_def index_at_def)
  have p: "playPrev hides initial = Inl (TypeError, initial)"
    by (simp add: playPrev_def loadTrack_def initial_def index_at_def)
  have t: "togglePlay hides initial =
     Inr (showNotification ''Please add MP3 files to the playlist'' Warning initial)"
    by (simp add: togglePlay_def initial_def)
  let ?s = "initial\<lparr>currentTrackIndex := 0\<rparr>"
  have h: "state_of (handleFiles hides [song ''a.mp3''] ?s)
      = rendered hides (added [song ''a.mp3''] ?s)"
    by (simp add: handleFiles_eq accepts_song)
  show ?thesis
    unfolding n p t state_of_simps h by (simp add: accepts_song initial_fields)
qed

subsection \<open>Removing a track before the selected one\<close>

text \<open>
  Claim C5. Removing a track at an index below the selection lowers
  \<^verbatim>\<open>currentTrackIndex\<close> by one and reloads nothing: the element (its source and
  its paused flag) and \<^verbatim>\<open>isPlaying\<close> are as before, and the only call made to
  the browser is the revocation of the removed track's URL. This is so whether the
  rendering that ends \<^verbatim>\<open>removeTrack\<close> succeeds or throws; the call returns normally
  exactly when no name left in the playlist hides its remove button.
\<close>

theorem removeTrack_before_current:
  assumes "index_at (playlist s) i = Some t" and "i < currentTrackIndex s"
  shows "currentTrackIndex (state_of (removeTrack hides i s)) = currentTrackIndex s - 1 \<and>
     audioPlayer (state_of (removeTrack hides i s)) = audioPlayer s \<and>
     isPlaying (state_of (removeTrack hides i s)) = isPlaying s \<and>
     trace (state_of (removeTrack hides i s)) = trace s @ [Revoke (url t)] \<and>
     playlist (state_of (removeTrack hides i s)) = splice1 (playlist s) i \<and>
     ((\<exists>s'. removeTrack hides i s = Inr s') \<longleftrightarrow>
        \<not> list_ex (\<lambda>u. hides (name u)) (splice1 (playlist s) i))"
proof -
  have r: "removeTrack hides i s =
      and_then (Inr ((removed i s)\<lparr>currentTrackIndex := currentTrackIndex s - 1\<rparr>))
        (renderPlaylist hides)"
    using assms(2) by (simp add: removeTrack_valid[OF assms(1)])
  have t: "playlist s ! nat i = t" by (rule removeTrack_valid_len(3)[OF assms(1)])
  show ?thesis
    unfolding r and_then_render_fields and_then_render_returns
    by (simp add: t renders_def)
qed

theorem removeTrack_before_current_witness:
  "index_at (playlist second_selected) 0
     = Some \<lparr>name = ''a'', file_obj = song ''a.mp3'', url = 0\<rparr> \<and>
   0 < currentTrackIndex second_selected \<and>
   (\<exists>s'. removeTrack example_parser 0 second_selected = Inr s' \<and> currentTrackIndex s' = 0 \<and>
      audioPlayer s' = \<lparr>src = Some 1, paused = False\<rparr> \<and> isPlaying s' \<and>
      trace s' = [SetSrc (Some 0), SetSrc (Some 1), Revoke 0] \<and>
      playlist s' = [\<lparr>name = ''b'', file_obj = song ''b.mp3'', url = 1\<rparr>])"
proof -
  have h1: "index_at (playlist second_selected) 0
     = Some \<lparr>name = ''a'', file_obj = song ''a.mp3'', url = 0\<rparr>"
    by (simp add: second_selected_fields two_tracks_fields index_at_def)
  have h2: "0 < currentTrackIndex second_selected"
    by (simp add: second_selected_fields)
  have sp: "splice1 (playlist two_tracks) 0
     = [\<lparr>name = ''b'', file_obj = song ''b.mp3'', url = 1\<rparr>]"
    by (simp add: two_tracks_fields splice1_def)
  have "\<exists>s'. removeTrack example_parser 0 second_selected = Inr s'"
    using removeTrack_before_current[OF h1 h2, of example_parser]
    by (simp add: sp second_selected_fields example_parser_def)
  then obtain s' where s': "removeTrack example_parser 0 second_selected = Inr s'" ..
  then have "state_of (removeTrack example_parser 0 second_selected) = s'" by simp
  then show ?thesis
    using removeTrack_before_current[OF h1 h2, of example_parser] h1 h2 s'
    by (simp add: sp second_selected_fields)
qed

subsection \<open>Indices out of range\<close>

text \<open>
  Claim C8, for \<^verbatim>\<open>loadTrack\<close>. With an index out of range the call fails, but
  after it has stored the index: \<^verbatim>\<open>currentTrackIndex\<close> is changed by the failed
  call.
\<close>

theorem loadTrack_out_of_range_moves_index:
  "index_at (playlist initial) 0 = None \<and>
   loadTrack hides 0 initial = Inl (TypeError, initial\<lparr>currentTrackIndex := 0\<rparr>) \<and>
   currentTrackIndex initial = - 1 \<and>
   currentTrackIndex (state_of (loadTrack hides 0 initial)) = 0"
  by (simp add: loadTrack_def initial_def index_at_def)

text \<open>
  With an index out of range \<^verbatim>\<open>removeTrack\<close> throws before it changes anything,
  and \<^verbatim>\<open>loadTrack\<close> leaves the playlist as it is.
\<close>

theorem removeTrack_out_of_range:
  assumes "index < 0 \<or> int (length (playlist s)) \<le> index"
  shows "removeTrack hides index s = Inl (TypeError, s) \<and>
         playlist (state_of (loadTrack hides index s)) = playlist s"
  using assms by (simp add: removeTrack_invalid index_at_None_iff loadTrack_core)

theorem removeTrack_out_of_range_witness:
  "int (length (playlist two_tracks)) \<le> 2 \<and>
   removeTrack example_parser 2 two_tracks = Inl (TypeError, two_tracks) \<and>
   playlist (state_of (loadTrack example_parser 2 two_tracks)) = playlist two_tracks"
proof -
  have h: "int (length (playlist two_tracks)) \<le> 2" by (simp add: two_tracks_fields)
  then have "2 < 0 \<or> int (length (playlist two_tracks)) \<le> 2" by simp
  from removeTrack_out_of_range[OF this] h show ?thesis by simp
qed

subsection \<open>Play and pause\<close>

text \<open>
  Claim C10. With a track selected, \<^verbatim>\<open>togglePlay\<close> flips \<^verbatim>\<open>isPlaying\<close>
  and pauses or resumes the element accordingly; the playlist, the selection and the
  source of the element are unchanged, no URL is created or revoked, and a second call
  restores \<^verbatim>\<open>isPlaying\<close>.
\<close>

theorem togglePlay_flips:
  assumes "0 \<le> currentTrackIndex s"
  shows "\<exists>s'. togglePlay hides s = Inr s' \<and> isPlaying s' = (\<not> isPlaying s) \<and>
     paused (audioPlayer s') = isPlaying s \<and>
     playlist s' = playlist s \<and> currentTrackIndex s' = currentTrackIndex s \<and>
     src (audioPlayer s') = src (audioPlayer s) \<and> trace s' = trace s \<and>
     nextUrl s' = nextUrl s \<and>
     (\<exists>s''. togglePlay hides s' = Inr s'' \<and> isPlaying s'' = isPlaying s)"
  using assms
  by (simp add: togglePlay_def playTrack_def pauseTrack_def audio_play_def audio_pause_def)

theorem togglePlay_flips_witness:
  "0 \<le> currentTrackIndex two_tracks \<and>
   (\<exists>s'. togglePlay example_parser two_tracks = Inr s' \<and> \<not> isPlaying s' \<and>
      paused (audioPlayer s') \<and>
      playlist s' = playlist two_tracks \<and> currentTrackIndex s' = 0 \<and>
      src (audioPlayer s') = Some 0 \<and>
      (\<exists>s''. togglePlay example_parser s' = Inr s'' \<and> isPlaying s''))"
proof -
  have h: "0 \<le> currentTrackIndex two_tracks"
    by (simp add: two_tracks_fields)
  show ?thesis
    using togglePlay_flips[OF h, of example_parser] h by (auto simp: two_tracks_fields)
qed

subsection \<open>Validation of files\<close>

lemma extension_append_dot:
  assumes "CHR ''.'' \<notin> set e"
  shows "extension (p @ CHR ''.'' # e) = CHR ''.'' # e"
proof -
  have "takeWhile (\<lambda>c. c \<noteq> CHR ''.'') (rev e @ CHR ''.'' # rev p) = rev e"
    using assms by (auto simp: takeWhile_tail)
  then show ?thesis by (simp add: extension_def)
qed

lemma extension_suffix: "\<exists>p. extension n = [] \<and> CHR ''.'' \<notin> set n \<or> n = p @ extension n"
proof (cases "CHR ''.'' \<in> set n")
  case False
  then show ?thesis by (simp add: extension_def)
next
  case True
  let ?P = "\<lambda>c. c \<noteq> CHR ''.''"
  have "dropWhile ?P (rev n) \<noteq> []"
    using True by simp
  moreover have "\<not> ?P (hd (dropWhile ?P (rev n)))"
    using calculation by (rule hd_dropWhile)
  ultimately obtain r where r: "dropWhile ?P (rev n) = CHR ''.'' # r"
    by (cases "dropWhile ?P (rev n)") auto
  have "rev n = takeWhile ?P (rev n) @ CHR ''.'' # r"
    using takeWhile_dropWhile_id[of ?P "rev n"] r by simp
  then have "n = rev r @ CHR ''.'' # rev (takeWhile ?P (rev n))"
    by (metis rev_append rev.simps(2) rev_rev_ident append.assoc append_Cons append_Nil)
  then show ?thesis using True by (auto simp: extension_def)
qed

lemma endsWith_extension:
  assumes "CHR ''.'' \<notin> set e"
  shows "endsWith n (CHR ''.'' # e) \<longleftrightarrow> extension n = CHR ''.'' # e"
proof
  assume "endsWith n (CHR ''.'' # e)"
  then obtain p where "n = p @ CHR ''.'' # e" by (auto simp: endsWith_iff)
  then show "extension n = CHR ''.'' # e" using assms by (simp add: extension_append_dot)
next
  assume e: "extension n = CHR ''.'' # e"
  then obtain p where "n = p @ extension n"
    using extension_suffix[of n] by auto
  then show "endsWith n (CHR ''.'' # e)"
    using e by (auto simp: endsWith_iff)
qed

lemma toLowerCase_char_dot: "toLowerCase_char c = CHR ''.'' \<longleftrightarrow> c = CHR ''.''"
proof (cases "65 \<le> (of_char c :: nat) \<and> (of_char c :: nat) \<le> 90")
  case True
  then have "(of_char (toLowerCase_char c) :: nat) = of_char c + 32"
    by (simp add: toLowerCase_char_def)
  then have "(of_char (toLowerCase_char c) :: nat) \<noteq> of_char (CHR ''.'')"
    using True by simp
  moreover have "c \<noteq> CHR ''.''" using True by auto
  ultimately show ?thesis by auto
next
  case False
  then show ?thesis by (auto simp: toLowerCase_char_def)
qed

lemma toLowerCase_has_dot: "CHR ''.'' \<in> set (toLowerCase n) \<longleftrightarrow> CHR ''.'' \<in> set n"
proof
  assume "CHR ''.'' \<in> set (toLowerCase n)"
  then obtain c where c: "c \<in> set n" "toLowerCase_char c = CHR ''.''"
    unfolding toLowerCase_def by (metis (no_types) image_iff set_map)
  from c(2) have "c = CHR ''.''" by (simp only: toLowerCase_char_dot)
  with c(1) show "CHR ''.'' \<in> set n" by simp
next
  assume d: "CHR ''.'' \<in> set n"
  have "toLowerCase_char (CHR ''.'') = CHR ''.''" by (simp only: toLowerCase_char_dot)
  with d show "CHR ''.'' \<in> set (toLowerCase n)"
    unfolding toLowerCase_def by (metis (no_types) image_eqI set_map)
qed

lemma takeWhile_toLowerCase:
  "takeWhile (\<lambda>c. c \<noteq> CHR ''.'') (map toLowerCase_char xs)
     = map toLowerCase_char (takeWhile (\<lambda>c. c \<noteq> CHR ''.'') xs)"
  by (induction xs) (simp_all add: toLowerCase_char_dot)

lemma extension_toLowerCase: "extension (toLowerCase n) = toLowerCase (extension n)"
proof (cases "CHR ''.'' \<in> set n")
  case True
  then have "CHR ''.'' \<in> set (toLowerCase n)" by (simp only: toLowerCase_has_dot)
  then have "extension (toLowerCase n)
      = CHR ''.'' # rev (takeWhile (\<lambda>c. c \<noteq> CHR ''.'') (rev (toLowerCase n)))"
    by (simp add: extension_def)
  also have "rev (toLowerCase n) = map toLowerCase_char (rev n)"
    by (simp add: toLowerCase_def rev_map)
  also have "CHR ''.'' # rev (takeWhile (\<lambda>c. c \<noteq> CHR ''.'') (map toLowerCase_char (rev n)))
      = toLowerCase (CHR ''.'' # rev (takeWhile (\<lambda>c. c \<noteq> CHR ''.'') (rev n)))"
    unfolding takeWhile_toLowerCase
    by (simp add: toLowerCase_def rev_map toLowerCase_char_def)
  also have "\<dots> = toLowerCase (extension n)"
    using True by (simp add: extension_def)
  finally show ?thesis .
next
  case False
  then have "CHR ''.'' \<notin> set (toLowerCase n)" by (simp add: toLowerCase_has_dot)
  then show ?thesis using False by (simp add: extension_def toLowerCase_def)
qed

lemma checkIfMp3_iff:
  "checkIfMp3 f \<longleftrightarrow>
     ftype f \<in> set validMimeTypes \<or>
     toLowerCase (extension (fname f)) \<in> {''.mp3'', ''.mp2'', ''.mpga'', ''.mpg'', ''.mpeg''}"
  by (auto simp: checkIfMp3_def validExtensions_def endsWith_extension extension_toLowerCase)

lemma accepts_iff_validate: "accepts f \<longleftrightarrow> spec_validate f = Accepted"
  by (simp add: accepts_def spec_validate_def checkIfMp3_iff MAX_FILE_SIZE_def)

lemma filter_accepts: "filter accepts fs = filter (\<lambda>f. spec_validate f = Accepted) fs"
  by (rule filter_cong) (simp_all add: accepts_iff_validate)

lemma warnings_eq: "warnings fs = concat (map rejection_warning fs)"
  by (induction fs) (simp_all add: rejection_warning_def spec_validate_def checkIfMp3_iff MAX_FILE_SIZE_def)

text \<open>
  Claim C7. \<^verbatim>\<open>handleFiles\<close> appends to the playlist exactly the files that the
  validation of the specification accepts, in their order, and warns on the console for
  every other file with the message of its rejection: the 50 MB message for a file over
  \<open>52428800\<close> bytes, the not-a-valid-MP3 message for a file of a size within the limit
  whose type and extension are both unknown.
\<close>

theorem handleFiles_validates:
  "map file_obj (playlist (state_of (handleFiles hides fs s)))
     = map file_obj (playlist s) @ filter (\<lambda>f. spec_validate f = Accepted) fs \<and>
   console (state_of (handleFiles hides fs s)) = console s @ concat (map rejection_warning fs)"
  by (simp add: handleFiles_core new_tracks_files filter_accepts warnings_eq)

lemma extension_examples:
  "extension ''exact.bin'' = ''.bin''" "extension ''big.mp3'' = ''.mp3''"
  "extension ''track.MP3'' = ''.MP3''" "extension ''track.wav'' = ''.wav''"
  by (simp_all add: extension_def)

lemma toLowerCase_examples:
  "toLowerCase ''.bin'' = ''.bin''" "toLowerCase ''.mp3'' = ''.mp3''"
  "toLowerCase ''.MP3'' = ''.mp3''" "toLowerCase ''.wav'' = ''.wav''"
  by (simp_all add: toLowerCase_def toLowerCase_char_def char_of_eq_iff)

lemma spec_validate_examples:
  "spec_validate exactly_50MiB = Accepted"
  "spec_validate over_50MiB = Rejected TooLarge"
  "spec_validate upper_case_mp3 = Accepted"
  "spec_validate wav_file = Rejected UnsupportedType"
  by (simp_all add: spec_validate_def exactly_50MiB_def over_50MiB_def upper_case_mp3_def
      wav_file_def validMimeTypes_def extension_examples toLowerCase_examples)

theorem handleFiles_validates_witness:
  "map file_obj (playlist (state_of
      (handleFiles example_parser [exactly_50MiB, over_50MiB, upper_case_mp3, wav_file] initial)))
     = [exactly_50MiB, upper_case_mp3] \<and>
   console (state_of
      (handleFiles example_parser [exactly_50MiB, over_50MiB, upper_case_mp3, wav_file] initial))
     = [''File big.mp3 exceeds 50MB limit'', ''File track.wav is not a valid MP3 file'']"
proof -
  have f: "fname over_50MiB = ''big.mp3''" "fname wav_file = ''track.wav''"
    by (simp_all add: over_50MiB_def wav_file_def)
  show ?thesis
    using handleFiles_validates[of example_parser
        "[exactly_50MiB, over_50MiB, upper_case_mp3, wav_file]" initial]
    by (simp add: spec_validate_examples rejection_warning_def f initial_fields)
qed

subsection \<open>Removing the selected track\<close>

text \<open>
  Claim C3 fails when a name left in the playlist hides its remove button. The first
  track plays; the file \<^verbatim>\<open><!--.mp3\<close> is added (the rendering throws after the first
  row); the play button pauses; the remove button of the first row is clicked.
  \<^verbatim>\<open>removeTrack(0)\<close> revokes the URL, removes the track and calls
  \<^verbatim>\<open>loadTrack(0)\<close>, which selects the remaining track and sets the source, and then
  throws in \<^verbatim>\<open>renderPlaylist\<close>, before \<^verbatim>\<open>playTrack\<close>: the remaining track is
  loaded but is not started.
\<close>

theorem removeTrack_current_not_started:
  "foldl (react example_parser) initial
      [Drop [song ''a.mp3''], Drop [song ''<!--.mp3''], PlayPause] = markup_paused \<and>
   map name (playlist markup_paused) = [''a'', ''<!--''] \<and>
   currentTrackIndex markup_paused = 0 \<and> has_row markup_paused 0 \<and>
   (\<exists>s'. removeTrack example_parser 0 markup_paused = Inl (TypeError, s') \<and>
      react example_parser markup_paused (RemoveClick 0) = s' \<and>
      map name (playlist s') = [''<!--''] \<and> currentTrackIndex s' = 0 \<and>
      src (audioPlayer s') = Some 1 \<and>
      trace s' = [SetSrc (Some 0), Revoke 0, SetSrc (Some 1)] \<and>
      \<not> isPlaying s' \<and> paused (audioPlayer s'))"
proof -
  let ?a = "\<lparr>name = ''a'', file_obj = song ''a.mp3'', url = 0\<rparr>"
  let ?m = "\<lparr>name = ''<!--'', file_obj = song ''<!--.mp3'', url = 1\<rparr>"
  have g: "foldl (react example_parser) initial
      [Drop [song ''a.mp3''], Drop [song ''<!--.mp3''], PlayPause] = markup_paused"
    by (simp add: one_track_def markup_added_def markup_paused_def)
  have p: "playlist markup_paused = [?a, ?m]"
    by (simp add: markup_paused_fields markup_added_fields)
  have i: "index_at (playlist markup_paused) 0 = Some ?a"
    by (simp add: p index_at_def)
  have sp: "splice1 (playlist markup_paused) 0 = [?m]"
    by (simp add: p splice1_def)
  have j: "index_at (playlist (removed 0 markup_paused)) 0 = Some ?m"
    by (simp add: sp index_at_def)
  have nr: "\<not> renders example_parser (removed 0 markup_paused)"
    by (simp add: renders_def sp example_parser_def)
  have r: "removeTrack example_parser 0 markup_paused =
      Inl (TypeError, rendered example_parser (selected 0 ?m (removed 0 markup_paused)))"
    by (simp add: removeTrack_valid[OF i] markup_paused_fields markup_added_fields
        loadTrack_valid[OF j] nr)
  have h: "has_row markup_paused 0"
    by (simp add: has_row_def markup_paused_fields)
  show ?thesis
    unfolding g using h by (simp add: r p splice1_def markup_paused_fields)
qed

text \<open>
  What \<^verbatim>\<open>removeTrack\<close> does to the selected track in general. When tracks remain,
  the selection moves to \<open>min i (length - 1)\<close> of the shortened playlist and that
  track's URL becomes the source of the element; playback starts, and the call returns,
  when every remaining row renders. When none remains, the selection is \<open>-1\<close>, the
  element is paused without a source and \<^verbatim>\<open>isPlaying\<close> is false.
\<close>

theorem removeTrack_current:
  assumes "index_at (playlist s) i = Some t" and "currentTrackIndex s = i"
  shows "playlist (state_of (removeTrack hides i s)) = splice1 (playlist s) i \<and>
     (if splice1 (playlist s) i \<noteq> []
      then currentTrackIndex (state_of (removeTrack hides i s))
             = min i (int (length (splice1 (playlist s) i)) - 1) \<and>
           index_at (splice1 (playlist s) i) (min i (int (length (splice1 (playlist s) i)) - 1))
             = Some (splice1 (playlist s) i ! nat (min i (int (length (splice1 (playlist s) i)) - 1))) \<and>
           src (audioPlayer (state_of (removeTrack hides i s)))
             = Some (url (splice1 (playlist s) i ! nat (min i (int (length (splice1 (playlist s) i)) - 1)))) \<and>
           (\<not> list_ex (\<lambda>u. hides (name u)) (splice1 (playlist s) i) \<longrightarrow>
              (\<exists>s'. removeTrack hides i s = Inr s') \<and>
              isPlaying (state_of (removeTrack hides i s)) \<and>
              \<not> paused (audioPlayer (state_of (removeTrack hides i s))))
      else (\<exists>s'. removeTrack hides i s = Inr s') \<and>
           currentTrackIndex (state_of (removeTrack hides i s)) = - 1 \<and>
           \<not> isPlaying (state_of (removeTrack hides i s)) \<and>
           src (audioPlayer (state_of (removeTrack hides i s))) = None \<and>
           paused (audioPlayer (state_of (removeTrack hides i s))))"
proof -
  note v = removeTrack_valid_len[OF assms(1)]
  note core = removeTrack_core[OF assms(1)]
  let ?j = "min i (int (length (playlist s)) - 2)"
  have m: "int (length (playlist s) - 1) - 1 = int (length (playlist s)) - 2"
    using v by linarith
  show ?thesis
  proof (cases "1 < length (playlist s)")
    case True
    have ne: "splice1 (playlist s) i \<noteq> []"
      using True v(4) by (metis length_0_conv less_numeral_extra(3) zero_less_diff)
    have j: "index_at (playlist (removed i s)) ?j = Some (splice1 (playlist s) i ! nat ?j)"
      using v(5)[OF True] by simp
    have r: "removeTrack hides i s
        = and_then (loadTrack hides ?j (removed i s)) (renderPlaylist hides)"
      using True assms(2) by (simp add: removeTrack_valid[OF assms(1)])
    have play: "\<not> list_ex (\<lambda>u. hides (name u)) (splice1 (playlist s) i) \<Longrightarrow>
        (\<exists>s'. removeTrack hides i s = Inr s') \<and>
        isPlaying (state_of (removeTrack hides i s)) \<and>
        \<not> paused (audioPlayer (state_of (removeTrack hides i s)))"
      unfolding r and_then_render_fields and_then_render_returns
      by (simp add: loadTrack_valid[OF j] renders_def)
    show ?thesis
      using True assms(2) ne v(5)[OF True] play
      by (simp add: core v(4) m)
  next
    case False
    then have e: "splice1 (playlist s) i = []" using v(4) by simp
    have r: "removeTrack hides i s = and_then (Inr (idle (removed i s))) (renderPlaylist hides)"
      using False assms(2) by (simp add: removeTrack_valid[OF assms(1)])
    show ?thesis
      unfolding r and_then_render_fields and_then_render_returns
      by (simp add: e renders_def)
  qed
qed

theorem removeTrack_current_witness:
  "index_at (playlist two_tracks) 0 = Some \<lparr>name = ''a'', file_obj = song ''a.mp3'', url = 0\<rparr> \<and>
   currentTrackIndex two_tracks = 0 \<and>
   (\<exists>s'. removeTrack example_parser 0 two_tracks = Inr s' \<and>
      playlist s' = [\<lparr>name = ''b'', file_obj = song ''b.mp3'', url = 1\<rparr>] \<and>
      currentTrackIndex s' = 0 \<and> src (audioPlayer s') = Some 1 \<and> isPlaying s')"
proof -
  have h1: "index_at (playlist two_tracks) 0 = Some \<lparr>name = ''a'', file_obj = song ''a.mp3'', url = 0\<rparr>"
    by (simp add: two_tracks_fields index_at_def)
  have h2: "currentTrackIndex two_tracks = 0"
    by (simp add: two_tracks_fields)
  have sp: "splice1 (playlist two_tracks) 0 = [\<lparr>name = ''b'', file_obj = song ''b.mp3'', url = 1\<rparr>]"
    by (simp add: two_tracks_fields splice1_def)
  have "\<exists>s'. removeTrack example_parser 0 two_tracks = Inr s'"
    using removeTrack_current[OF h1 h2, of example_parser]
    by (simp add: sp example_parser_def)
  then obtain s' where s': "removeTrack example_parser 0 two_tracks = Inr s'" ..
  then have "state_of (removeTrack example_parser 0 two_tracks) = s'" by simp
  then show ?thesis
    using removeTrack_current[OF h1 h2, of example_parser] h1 h2 s'
    by (simp add: sp example_parser_def)
qed

subsection \<open>Revocation of object URLs\<close>

lemma removeTrack_one_track:
  "trace (state_of (removeTrack example_parser 0 one_track))
     = [SetSrc (Some 0), Revoke 0, SetSrc None]"
proof -
  have i: "index_at (playlist one_track) 0 = Some \<lparr>name = ''a'', file_obj = song ''a.mp3'', url = 0\<rparr>"
    by (simp add: one_track_fields index_at_def)
  show ?thesis
    by (simp add: removeTrack_valid[OF i] one_track_fields renderPlaylist_eq)
qed

text \<open>
  Claim C4, as stated, fails: \<^verbatim>\<open>removeTrack\<close> revokes the URL in its first
  statement, while the URL is still the source of the element, and changes the source
  afterwards. Here the only track is playing and is removed.
\<close>

theorem revocation_precedes_source_change:
  "src (audioPlayer one_track) = Some 0 \<and>
   trace (state_of (removeTrack example_parser 0 one_track))
     = trace one_track @ [Revoke 0, SetSrc None] \<and>
   revokes_loaded None (trace (run example_parser initial [Add [song ''a.mp3''], Remove 0]))"
proof -
  have "run example_parser initial [Add [song ''a.mp3''], Remove 0]
      = state_of (removeTrack example_parser 0 one_track)"
    by (simp add: run_def one_track_def)
  then show ?thesis
    by (simp add: removeTrack_one_track one_track_fields)
qed

text \<open>
  Claim C4, as amended. After any sequence of gestures on the page and events of the
  element, whatever names the parser takes for markup, the URLs of the playlist and the
  revoked URLs are pairwise different and together are all the URLs created, and the
  source of the element is not a revoked URL. Then \<^verbatim>\<open>removeTrack\<close> at a valid index
  revokes the URL of the removed track, which was not revoked before, exactly once; the
  track leaves the playlist; and when the handler ends, by a return or by an error, the
  source of the element is not a revoked URL: removing the selected track, at whatever
  index it is, has replaced the source by the URL of the track at
  \<open>min i (length - 1)\<close> of the shortened playlist or, when no track is left, by no
  source, and removing another track has left the source as it was. At an index out of
  range \<^verbatim>\<open>removeTrack\<close> revokes nothing.
\<close>

theorem urls_revoked_once:
  fixes hides gs i
  defines "s \<equiv> foldl (react hides) initial gs"
  defines "s' \<equiv> state_of (removeTrack hides i s)"
  shows "distinct (map url (playlist s) @ revoked (trace s)) \<and>
     set (map url (playlist s)) \<union> set (revoked (trace s)) = {..< nextUrl s} \<and>
     (case src (audioPlayer s) of None \<Rightarrow> True | Some u \<Rightarrow> u \<notin> set (revoked (trace s))) \<and>
     (case index_at (playlist s) i of
        None \<Rightarrow> s' = s
      | Some t \<Rightarrow>
          url t \<notin> set (revoked (trace s)) \<and>
          revoked (trace s') = revoked (trace s) @ [url t] \<and>
          playlist s' = splice1 (playlist s) i \<and>
          url t \<notin> set (map url (playlist s')) \<and>
          src (audioPlayer s') \<noteq> Some (url t) \<and>
          (case src (audioPlayer s') of
             None \<Rightarrow> True | Some u \<Rightarrow> u \<notin> set (revoked (trace s'))) \<and>
          src (audioPlayer s') =
            (if currentTrackIndex s = i
             then (if playlist s' = [] then None
                   else Some (url (playlist s' ! nat (min i (int (length (playlist s')) - 1)))))
             else src (audioPlayer s)))"
proof -
  have ok: "page_ok s" unfolding s_def by (rule page_ok_session)
  have ok': "page_ok s'" unfolding s'_def using ok by (rule page_ok_removeTrack)
  have src_live: "case src (audioPlayer x) of None \<Rightarrow> True | Some u \<Rightarrow> u \<in> set (map url (playlist x))"
    if "page_ok x" for x
    using that
    by (auto simp: page_ok_def src_ok_def index_at_def split: if_splits option.splits)
  have d: "distinct (map url (playlist s) @ revoked (trace s))"
    and d': "distinct (map url (playlist s') @ revoked (trace s'))"
    using ok ok' by (simp_all add: page_ok_def urls_ok_def)
  have a: "set (map url (playlist s)) \<union> set (revoked (trace s)) = {..< nextUrl s}"
    using ok by (simp add: page_ok_def urls_ok_def)
  have nr: "case src (audioPlayer x) of None \<Rightarrow> True | Some u \<Rightarrow> u \<notin> set (revoked (trace x))"
    if "page_ok x" for x
  proof -
    have "distinct (map url (playlist x) @ revoked (trace x))"
      using that by (simp add: page_ok_def urls_ok_def)
    then show ?thesis
      using src_live[OF that] by (auto split: option.splits)
  qed
  have c: "case index_at (playlist s) i of
        None \<Rightarrow> s' = s
      | Some t \<Rightarrow>
          url t \<notin> set (revoked (trace s)) \<and>
          revoked (trace s') = revoked (trace s) @ [url t] \<and>
          playlist s' = splice1 (playlist s) i \<and>
          url t \<notin> set (map url (playlist s')) \<and>
          src (audioPlayer s') \<noteq> Some (url t) \<and>
          (case src (audioPlayer s') of
             None \<Rightarrow> True | Some u \<Rightarrow> u \<notin> set (revoked (trace s'))) \<and>
          src (audioPlayer s') =
            (if currentTrackIndex s = i
             then (if playlist s' = [] then None
                   else Some (url (playlist s' ! nat (min i (int (length (playlist s')) - 1)))))
             else src (audioPlayer s))"
  proof (cases "index_at (playlist s) i")
    case None
    then show ?thesis by (simp add: s'_def removeTrack_invalid)
  next
    case (Some t)
    note v = removeTrack_valid_len[OF Some]
    note core = removeTrack_core[OF Some, of hides, folded s'_def]
    have tin: "t \<in> set (playlist s)" using v(1,2,3) by (metis nat_less_iff nth_mem)
    have r: "revoked (trace s') = revoked (trace s) @ [url t]" by (rule core)
    have p: "playlist s' = splice1 (playlist s) i" by (rule core)
    have n1: "url t \<notin> set (revoked (trace s))" using d tin by auto
    have n2: "url t \<notin> set (map url (playlist s'))" using d' r by auto
    have n3: "src (audioPlayer s') \<noteq> Some (url t)"
      using src_live[OF ok'] n2 by (force split: option.splits)
    have m: "int (length (playlist s) - 1) - 1 = int (length (playlist s)) - 2"
      using v by linarith
    have e: "splice1 (playlist s) i = [] \<longleftrightarrow> \<not> 1 < length (playlist s)"
      using v(1,2,4) by (metis One_nat_def Suc_lessI length_0_conv length_greater_0_conv
          less_numeral_extra(3) zero_less_diff nat_less_iff zero_less_nat_eq
          diff_self_eq_0 less_nat_zero_code)
    have n4: "src (audioPlayer s') =
            (if currentTrackIndex s = i
             then (if playlist s' = [] then None
                   else Some (url (playlist s' ! nat (min i (int (length (playlist s')) - 1)))))
             else src (audioPlayer s))"
      unfolding core(6) p e v(4) m by simp
    show ?thesis using Some r p n1 n2 n3 n4 nr[OF ok'] by simp
  qed
  show ?thesis using d a nr[OF ok] c by blast
qed

theorem urls_revoked_once_witness:
  "foldl (react example_parser) initial [Drop [song ''a.mp3'', song ''b.mp3''], RowClick 1]
     = second_selected \<and>
   index_at (playlist second_selected) 1
     = Some \<lparr>name = ''b'', file_obj = song ''b.mp3'', url = 1\<rparr> \<and>
   currentTrackIndex second_selected = 1 \<and>
   src (audioPlayer second_selected) = Some 1 \<and>
   revoked (trace (state_of (removeTrack example_parser 1 second_selected))) = [1] \<and>
   playlist (state_of (removeTrack example_parser 1 second_selected))
     = [\<lparr>name = ''a'', file_obj = song ''a.mp3'', url = 0\<rparr>] \<and>
   src (audioPlayer (state_of (removeTrack example_parser 1 second_selected))) = Some 0"
proof -
  have g: "foldl (react example_parser) initial
      [Drop [song ''a.mp3'', song ''b.mp3''], RowClick 1] = second_selected"
    by (simp add: two_tracks_def[symmetric] has_row_def two_tracks_fields second_selected_def)
  show ?thesis
    using urls_revoked_once[of example_parser
        "[Drop [song ''a.mp3'', song ''b.mp3''], RowClick 1]" 1]
    unfolding g
    by (simp add: second_selected_fields two_tracks_fields index_at_def splice1_def)
qed

subsection \<open>Adding files and the selection\<close>

text \<open>
  Claim C6 fails on two inputs. After a click on Next on the fresh page the playlist is
  empty and \<^verbatim>\<open>currentTrackIndex\<close> is 0; a file added then is appended and
  rendered, and \<^verbatim>\<open>handleFiles\<close> returns without loading it, since it tests
  \<^verbatim>\<open>currentTrackIndex === -1\<close>: the playlist was empty and no playback starts.
  And a file named \<^verbatim>\<open><!--.mp3\<close> added on the fresh page is appended, the
  rendering throws, and \<^verbatim>\<open>loadTrack(0)\<close> is never reached. Both versions of
  \<^verbatim>\<open>handleFiles\<close> do so.
\<close>

theorem adding_to_empty_playlist_not_started:
  "playlist (react example_parser initial Next) = [] \<and>
   (\<exists>s'. handleFiles example_parser [song ''a.mp3''] (react example_parser initial Next) = Inr s' \<and>
      map name (playlist s') = [''a''] \<and> currentTrackIndex s' = 0 \<and>
      src (audioPlayer s') = None \<and> \<not> isPlaying s' \<and> paused (audioPlayer s')) \<and>
   (\<exists>s'. handleFiles_000 example_parser [song ''a.mp3''] (react example_parser initial Next) = Inr s' \<and>
      map name (playlist s') = [''a''] \<and> currentTrackIndex s' = 0 \<and>
      src (audioPlayer s') = None \<and> \<not> isPlaying s' \<and> paused (audioPlayer s')) \<and>
   playlist initial = [] \<and>
   (\<exists>s'. handleFiles example_parser [song ''<!--.mp3''] initial = Inl (TypeError, s') \<and>
      map name (playlist s') = [''<!--''] \<and> currentTrackIndex s' = - 1 \<and>
      src (audioPlayer s') = None \<and> \<not> isPlaying s' \<and> paused (audioPlayer s')) \<and>
   (\<exists>s'. handleFiles_000 example_parser [song ''<!--.mp3''] initial = Inl (TypeError, s') \<and>
      map name (playlist s') = [''<!--''] \<and> currentTrackIndex s' = - 1 \<and>
      src (audioPlayer s') = None \<and> \<not> isPlaying s' \<and> paused (audioPlayer s'))"
proof -
  let ?n = "initial\<lparr>currentTrackIndex := 0\<rparr>"
  have n: "react example_parser initial Next = ?n"
    by (simp add: playNext_def loadTrack_def initial_def index_at_def)
  have nf: "playlist ?n = []" "currentTrackIndex ?n = 0" "nextUrl ?n = 0"
    "audioPlayer ?n = \<lparr>src = None, paused = True\<rparr>" "\<not> isPlaying ?n"
    by (simp_all add: initial_def)
  have ty: "ftype (song x) = ''audio/mpeg''" for x by (simp add: song_def)
  have a1: "\<exists>s'. handleFiles example_parser [song ''a.mp3''] ?n = Inr s' \<and>
      map name (playlist s') = [''a''] \<and> currentTrackIndex s' = 0 \<and>
      src (audioPlayer s') = None \<and> \<not> isPlaying s' \<and> paused (audioPlayer s')"
    by (simp add: handleFiles_eq nf example_simps renders_def example_parser_def)
  have a2: "\<exists>s'. handleFiles_000 example_parser [song ''a.mp3''] ?n = Inr s' \<and>
      map name (playlist s') = [''a''] \<and> currentTrackIndex s' = 0 \<and>
      src (audioPlayer s') = None \<and> \<not> isPlaying s' \<and> paused (audioPlayer s')"
    by (simp add: handleFiles_000_eq ty createObjectURL_def initial_fields example_simps
        renders_def example_parser_def)
  have b1: "\<exists>s'. handleFiles example_parser [song ''<!--.mp3''] initial = Inl (TypeError, s') \<and>
      map name (playlist s') = [''<!--''] \<and> currentTrackIndex s' = - 1 \<and>
      src (audioPlayer s') = None \<and> \<not> isPlaying s' \<and> paused (audioPlayer s')"
    by (simp add: handleFiles_eq initial_fields example_simps renders_def example_parser_def)
  have b2: "\<exists>s'. handleFiles_000 example_parser [song ''<!--.mp3''] initial = Inl (TypeError, s') \<and>
      map name (playlist s') = [''<!--''] \<and> currentTrackIndex s' = - 1 \<and>
      src (audioPlayer s') = None \<and> \<not> isPlaying s' \<and> paused (audioPlayer s')"
    by (simp add: handleFiles_000_eq ty createObjectURL_def initial_fields example_simps
        renders_def example_parser_def)
  show ?thesis
    unfolding n using a1 a2 b1 b2 initial_fields(1) nf(1) by blast
qed

text \<open>
  What the two versions of \<^verbatim>\<open>handleFiles\<close> do to the selection in every state.
  With a selection other than \<open>-1\<close>, \<^verbatim>\<open>currentTrackIndex\<close>, the element and
  \<^verbatim>\<open>isPlaying\<close> stay as they are. With the selection \<open>-1\<close>, when the call
  renders (the later version: a file is accepted; the earlier one: the playlist is not
  empty after the loop) and every row keeps its button, the call returns with the
  selection 0 and the first track of the playlist loaded and playing; when it does not
  render, nothing is selected or loaded.
\<close>

theorem adding_keeps_selection:
  fixes hides fs s
  defines "s1 \<equiv> state_of (handleFiles hides fs s)"
  defines "s0 \<equiv> state_of (handleFiles_000 hides fs s)"
  shows
    "(currentTrackIndex s \<noteq> - 1 \<longrightarrow>
        currentTrackIndex s1 = currentTrackIndex s \<and> audioPlayer s1 = audioPlayer s \<and>
        isPlaying s1 = isPlaying s \<and>
        currentTrackIndex s0 = currentTrackIndex s \<and> audioPlayer s0 = audioPlayer s \<and>
        isPlaying s0 = isPlaying s) \<and>
     (currentTrackIndex s = - 1 \<and> filter accepts fs \<noteq> [] \<and>
      \<not> list_ex (\<lambda>t. hides (name t)) (playlist s1) \<longrightarrow>
        handleFiles hides fs s = Inr s1 \<and> currentTrackIndex s1 = 0 \<and>
        src (audioPlayer s1) = Some (url (hd (playlist s1))) \<and>
        isPlaying s1 \<and> \<not> paused (audioPlayer s1)) \<and>
     (currentTrackIndex s = - 1 \<and> playlist s0 \<noteq> [] \<and>
      \<not> list_ex (\<lambda>t. hides (name t)) (playlist s0) \<longrightarrow>
        handleFiles_000 hides fs s = Inr s0 \<and> currentTrackIndex s0 = 0 \<and>
        src (audioPlayer s0) = Some (url (hd (playlist s0))) \<and>
        isPlaying s0 \<and> \<not> paused (audioPlayer s0)) \<and>
     (currentTrackIndex s = - 1 \<and> filter accepts fs = [] \<longrightarrow>
        currentTrackIndex s1 = - 1 \<and> audioPlayer s1 = audioPlayer s \<and>
        isPlaying s1 = isPlaying s \<and> playlist s1 = playlist s) \<and>
     (currentTrackIndex s = - 1 \<and> playlist s0 = [] \<longrightarrow>
        currentTrackIndex s0 = - 1 \<and> audioPlayer s0 = audioPlayer s \<and>
        isPlaying s0 = isPlaying s)"
proof -
  let ?a = "added fs s" and ?l = "handleFiles_000_loop fs s"
  have hd0: "index_at xs 0 = Some (hd xs)" if "xs \<noteq> []" for xs :: "track list"
    using that by (cases xs) (auto simp: index_at_def)
  have p1: "playlist s1 = playlist ?a"
    by (simp add: s1_def handleFiles_core)
  have p0: "playlist s0 = playlist ?l"
    by (simp add: s0_def handleFiles_000_eq loadTrack_core)
  have c1: "currentTrackIndex s \<noteq> - 1 \<Longrightarrow>
        currentTrackIndex s1 = currentTrackIndex s \<and> audioPlayer s1 = audioPlayer s \<and>
        isPlaying s1 = isPlaying s"
    by (simp add: s1_def handleFiles_eq)
  have c0: "currentTrackIndex s \<noteq> - 1 \<Longrightarrow>
        currentTrackIndex s0 = currentTrackIndex s \<and> audioPlayer s0 = audioPlayer s \<and>
        isPlaying s0 = isPlaying s"
    by (simp add: s0_def handleFiles_000_eq handleFiles_000_loop_fields)
  have g1: "handleFiles hides fs s = Inr s1 \<and> currentTrackIndex s1 = 0 \<and>
        src (audioPlayer s1) = Some (url (hd (playlist s1))) \<and>
        isPlaying s1 \<and> \<not> paused (audioPlayer s1)"
    if "currentTrackIndex s = - 1" "filter accepts fs \<noteq> []"
      "\<not> list_ex (\<lambda>t. hides (name t)) (playlist s1)"
  proof -
    have ne: "new_tracks fs (nextUrl s) \<noteq> []"
      using that(2) filter_accepts_new_tracks by simp
    have r: "renders hides ?a" using that(3) by (simp add: renders_def p1)
    have i: "index_at (playlist (rendered hides ?a)) 0 = Some (hd (playlist ?a))"
      using hd0[of "playlist ?a"] ne by simp
    have e: "handleFiles hides fs s = loadTrack hides 0 (rendered hides ?a)"
      using that(1) ne r by (simp add: handleFiles_eq)
    have r': "renders hides (rendered hides ?a)" using r by simp
    show ?thesis
      unfolding s1_def e
      using loadTrack_returns[OF i r'] loadTrack_fields[OF i r']
      by simp
  qed
  have g0: "handleFiles_000 hides fs s = Inr s0 \<and> currentTrackIndex s0 = 0 \<and>
        src (audioPlayer s0) = Some (url (hd (playlist s0))) \<and>
        isPlaying s0 \<and> \<not> paused (audioPlayer s0)"
    if "currentTrackIndex s = - 1" "playlist s0 \<noteq> []"
      "\<not> list_ex (\<lambda>t. hides (name t)) (playlist s0)"
  proof -
    have ne: "playlist ?l \<noteq> []" using that(2) by (simp add: p0)
    have r: "renders hides ?l" using that(3) by (simp add: renders_def p0)
    have i: "index_at (playlist (rendered hides ?l)) 0 = Some (hd (playlist ?l))"
      using hd0[of "playlist ?l"] ne by simp
    have e: "handleFiles_000 hides fs s = loadTrack hides 0 (rendered hides ?l)"
      using that(1) ne r by (simp add: handleFiles_000_eq)
    have r': "renders hides (rendered hides ?l)" using r by simp
    show ?thesis
      unfolding s0_def e
      using loadTrack_returns[OF i r'] loadTrack_fields[OF i r']
      by simp
  qed
  have n1: "currentTrackIndex s1 = - 1 \<and> audioPlayer s1 = audioPlayer s \<and>
        isPlaying s1 = isPlaying s \<and> playlist s1 = playlist s"
    if "currentTrackIndex s = - 1" "filter accepts fs = []"
  proof -
    have "new_tracks fs (nextUrl s) = []"
      using that(2) filter_accepts_new_tracks by simp
    then show ?thesis using that(1) by (simp add: s1_def handleFiles_eq)
  qed
  have n0: "currentTrackIndex s0 = - 1 \<and> audioPlayer s0 = audioPlayer s \<and>
        isPlaying s0 = isPlaying s"
    if "currentTrackIndex s = - 1" "playlist s0 = []"
  proof -
    have "playlist ?l = []" using that(2) by (simp add: p0)
    then show ?thesis
      using that(1) by (simp add: s0_def handleFiles_000_eq handleFiles_000_loop_fields)
  qed
  show ?thesis using c1 c0 g1 g0 n1 n0 by blast
qed

theorem adding_keeps_selection_witness:
  "currentTrackIndex initial = - 1 \<and> filter accepts [song ''a.mp3''] \<noteq> [] \<and>
   (\<exists>s'. handleFiles example_parser [song ''a.mp3''] initial = Inr s' \<and>
      currentTrackIndex s' = 0 \<and> src (audioPlayer s') = Some (url (hd (playlist s'))) \<and>
      isPlaying s' \<and> \<not> paused (audioPlayer s')) \<and>
   currentTrackIndex two_tracks \<noteq> - 1 \<and>
   currentTrackIndex (state_of (handleFiles example_parser [song ''c.mp3''] two_tracks)) = 0 \<and>
   currentTrackIndex (state_of (handleFiles_000 example_parser [song ''c.mp3''] two_tracks)) = 0"
proof -
  let ?s1 = "state_of (handleFiles example_parser [song ''a.mp3''] initial)"
  have p: "playlist ?s1 = [\<lparr>name = ''a'', file_obj = song ''a.mp3'', url = 0\<rparr>]"
    by (simp add: handleFiles_core initial_fields example_simps)
  have h: "currentTrackIndex initial = - 1 \<and> filter accepts [song ''a.mp3''] \<noteq> [] \<and>
      \<not> list_ex (\<lambda>t. example_parser (name t)) (playlist ?s1)"
    by (simp add: p initial_fields accepts_song example_parser_def)
  have g: "handleFiles example_parser [song ''a.mp3''] initial = Inr ?s1 \<and>
      currentTrackIndex ?s1 = 0 \<and> src (audioPlayer ?s1) = Some (url (hd (playlist ?s1))) \<and>
      isPlaying ?s1 \<and> \<not> paused (audioPlayer ?s1)"
    using adding_keeps_selection[where hides = example_parser and fs = "[song ''a.mp3'']"
        and s = initial] h
    by blast
  have c: "currentTrackIndex two_tracks \<noteq> - 1" by (simp add: two_tracks_fields)
  have k: "currentTrackIndex (state_of (handleFiles example_parser [song ''c.mp3''] two_tracks))
        = currentTrackIndex two_tracks \<and>
      currentTrackIndex (state_of (handleFiles_000 example_parser [song ''c.mp3''] two_tracks))
        = currentTrackIndex two_tracks"
    using adding_keeps_selection[where hides = example_parser and fs = "[song ''c.mp3'']"
        and s = two_tracks] c
    by blast
  show ?thesis
    using h g k c by (auto simp: two_tracks_fields)
qed

subsection \<open>Doubles\<close>











subsection \<open>The time format\<close>






subsection \<open>Previous and next with a valid selection\<close>

text \<open>
  With a valid selection, \<^verbatim>\<open>playNext\<close> selects the next index, or index 0 from the
  last one, and \<^verbatim>\<open>playPrev\<close> selects the previous index, or the last one from
  index 0; a playlist of one track wraps to itself. The URL of the selected track becomes
  the source of the element, and the call returns with the track playing when every row
  of the playlist renders.
\<close>

theorem playNext_playPrev_wrap:
  fixes hides s
  defines "n \<equiv> state_of (playNext hides s)"
  defines "p \<equiv> state_of (playPrev hides s)"
  assumes "0 \<le> currentTrackIndex s" and "currentTrackIndex s < int (length (playlist s))"
  shows "playlist n = playlist s \<and>
         currentTrackIndex n =
           (if currentTrackIndex s = int (length (playlist s)) - 1 then 0
            else currentTrackIndex s + 1) \<and>
         src (audioPlayer n) = Some (url (playlist s ! nat (currentTrackIndex n))) \<and>
         (\<not> list_ex (\<lambda>t. hides (name t)) (playlist s) \<longrightarrow>
            playNext hides s = Inr n \<and> isPlaying n \<and> \<not> paused (audioPlayer n)) \<and>
         playlist p = playlist s \<and>
         currentTrackIndex p =
           (if currentTrackIndex s = 0 then int (length (playlist s)) - 1
            else currentTrackIndex s - 1) \<and>
         src (audioPlayer p) = Some (url (playlist s ! nat (currentTrackIndex p))) \<and>
         (\<not> list_ex (\<lambda>t. hides (name t)) (playlist s) \<longrightarrow>
            playPrev hides s = Inr p \<and> isPlaying p \<and> \<not> paused (audioPlayer p))"
proof -
  have ld: "playlist (state_of (loadTrack hides j s)) = playlist s \<and>
      currentTrackIndex (state_of (loadTrack hides j s)) = j \<and>
      src (audioPlayer (state_of (loadTrack hides j s))) = Some (url (playlist s ! nat j)) \<and>
      (\<not> list_ex (\<lambda>t. hides (name t)) (playlist s) \<longrightarrow>
         loadTrack hides j s = Inr (state_of (loadTrack hides j s)) \<and>
         isPlaying (state_of (loadTrack hides j s)) \<and>
         \<not> paused (audioPlayer (state_of (loadTrack hides j s))))"
    if "0 \<le> j" "j < int (length (playlist s))" for j
  proof -
    have i: "index_at (playlist s) j = Some (playlist s ! nat j)"
      using that by (simp add: index_at_def)
    show ?thesis
      by (simp add: loadTrack_core i loadTrack_valid[OF i] renders_def)
  qed
  have N: "playlist n = playlist s \<and>
         currentTrackIndex n =
           (if currentTrackIndex s = int (length (playlist s)) - 1 then 0
            else currentTrackIndex s + 1) \<and>
         src (audioPlayer n) = Some (url (playlist s ! nat (currentTrackIndex n))) \<and>
         (\<not> list_ex (\<lambda>t. hides (name t)) (playlist s) \<longrightarrow>
            playNext hides s = Inr n \<and> isPlaying n \<and> \<not> paused (audioPlayer n))"
  proof (cases "currentTrackIndex s = int (length (playlist s)) - 1")
    case True
    then have e: "playNext hides s = loadTrack hides 0 s" by (simp add: playNext_def)
    show ?thesis
      unfolding n_def e using ld[of 0] assms(3,4) True by simp
  next
    case False
    then have e: "playNext hides s = loadTrack hides (currentTrackIndex s + 1) s"
      using assms(4) by (simp add: playNext_def)
    show ?thesis
      unfolding n_def e using ld[of "currentTrackIndex s + 1"] assms(3,4) False by simp
  qed
  have P: "playlist p = playlist s \<and>
         currentTrackIndex p =
           (if currentTrackIndex s = 0 then int (length (playlist s)) - 1
            else currentTrackIndex s - 1) \<and>
         src (audioPlayer p) = Some (url (playlist s ! nat (currentTrackIndex p))) \<and>
         (\<not> list_ex (\<lambda>t. hides (name t)) (playlist s) \<longrightarrow>
            playPrev hides s = Inr p \<and> isPlaying p \<and> \<not> paused (audioPlayer p))"
  proof (cases "currentTrackIndex s = 0")
    case True
    then have e: "playPrev hides s = loadTrack hides (int (length (playlist s)) - 1) s"
      by (simp add: playPrev_def)
    show ?thesis
      unfolding p_def e using ld[of "int (length (playlist s)) - 1"] assms(3,4) True by simp
  next
    case False
    then have e: "playPrev hides s = loadTrack hides (currentTrackIndex s - 1) s"
      using assms(3) by (simp add: playPrev_def)
    show ?thesis
      unfolding p_def e using ld[of "currentTrackIndex s - 1"] assms(3,4) False by simp
  qed
  show ?thesis using N P by blast
qed

theorem playNext_playPrev_wrap_witness:
  "0 \<le> currentTrackIndex one_track \<and>
   currentTrackIndex one_track < int (length (playlist one_track)) \<and>
   (\<exists>s'. playNext example_parser one_track = Inr s' \<and> currentTrackIndex s' = 0 \<and> isPlaying s') \<and>
   (\<exists>s'. playPrev example_parser one_track = Inr s' \<and> currentTrackIndex s' = 0 \<and> isPlaying s') \<and>
   (\<exists>s'. playNext example_parser second_selected = Inr s' \<and> currentTrackIndex s' = 0 \<and>
      isPlaying s') \<and>
   (\<exists>s'. playPrev example_parser two_tracks = Inr s' \<and> currentTrackIndex s' = 1 \<and> isPlaying s')"
proof -
  have h1: "0 \<le> currentTrackIndex one_track"
    and h2: "currentTrackIndex one_track < int (length (playlist one_track))"
    by (simp_all add: one_track_fields)
  have h3: "0 \<le> currentTrackIndex second_selected"
    and h4: "currentTrackIndex second_selected < int (length (playlist second_selected))"
    by (simp_all add: second_selected_fields two_tracks_fields)
  have h5: "0 \<le> currentTrackIndex two_tracks"
    and h6: "currentTrackIndex two_tracks < int (length (playlist two_tracks))"
    by (simp_all add: two_tracks_fields)
  have r: "\<not> list_ex (\<lambda>t. example_parser (name t)) (playlist one_track)"
    "\<not> list_ex (\<lambda>t. example_parser (name t)) (playlist second_selected)"
    "\<not> list_ex (\<lambda>t. example_parser (name t)) (playlist two_tracks)"
    by (simp_all add: one_track_fields second_selected_fields two_tracks_fields
        example_parser_def)
  have a: "playNext example_parser one_track = Inr (state_of (playNext example_parser one_track)) \<and>
      currentTrackIndex (state_of (playNext example_parser one_track)) = 0 \<and>
      isPlaying (state_of (playNext example_parser one_track))"
    "playPrev example_parser one_track = Inr (state_of (playPrev example_parser one_track)) \<and>
      currentTrackIndex (state_of (playPrev example_parser one_track)) = 0 \<and>
      isPlaying (state_of (playPrev example_parser one_track))"
    using playNext_playPrev_wrap[OF h1 h2, of example_parser] r(1)
    by (simp_all add: one_track_fields)
  have b: "playNext example_parser second_selected
        = Inr (state_of (playNext example_parser second_selected)) \<and>
      currentTrackIndex (state_of (playNext example_parser second_selected)) = 0 \<and>
      isPlaying (state_of (playNext example_parser second_selected))"
    using playNext_playPrev_wrap[OF h3 h4, of example_parser] r(2)
    by (simp add: second_selected_fields two_tracks_fields)
  have c: "playPrev example_parser two_tracks
        = Inr (state_of (playPrev example_parser two_tracks)) \<and>
      currentTrackIndex (state_of (playPrev example_parser two_tracks)) = 1 \<and>
      isPlaying (state_of (playPrev example_parser two_tracks))"
    using playNext_playPrev_wrap[OF h5 h6, of example_parser] r(3)
    by (simp add: two_tracks_fields)
  show ?thesis using h1 h2 a b c by blast
qed

subsection \<open>The flag and the element\<close>

lemma in_sync_cong:
  "isPlaying s' = isPlaying s \<Longrightarrow> paused (audioPlayer s') = paused (audioPlayer s) \<Longrightarrow>
   in_sync s' = in_sync s"
  by (simp add: in_sync_def)

lemma in_sync_loadTrack: "in_sync s \<Longrightarrow> in_sync (state_of (loadTrack hides i s))"
  by (cases "index_at (playlist s) i")
    (auto simp: in_sync_def loadTrack_invalid loadTrack_valid)

lemma in_sync_handleFiles: "in_sync s \<Longrightarrow> in_sync (state_of (handleFiles hides fs s))"
  using in_sync_loadTrack[of "rendered hides (added fs s)" hides 0]
  by (simp add: handleFiles_eq) (simp add: in_sync_def)

lemma in_sync_removeTrack:
  assumes "in_sync s"
  shows "in_sync (state_of (removeTrack hides i s))"
proof (cases "index_at (playlist s) i")
  case None
  then show ?thesis using assms by (simp add: removeTrack_invalid)
next
  case (Some t)
  have r: "in_sync (removed i s)" using assms by (simp add: in_sync_def)
  have a: "in_sync (state_of (loadTrack hides j (removed i s)))" for j
    using r by (rule in_sync_loadTrack)
  have b: "in_sync ((removed i s)\<lparr>currentTrackIndex := k\<rparr>)" for k
    using r by (simp add: in_sync_def)
  have c: "in_sync (idle (removed i s))" by (simp add: in_sync_def)
  have e: "in_sync (state_of (and_then x (renderPlaylist hides))) = in_sync (state_of x)" for x
    by (simp add: in_sync_def)
  show ?thesis
    unfolding removeTrack_valid[OF Some] e using a b c r by simp
qed

lemma in_sync_togglePlay: "in_sync s \<Longrightarrow> in_sync (state_of (togglePlay hides s))"
  using in_sync_loadTrack[of s hides 0]
  by (auto simp: togglePlay_def in_sync_def showNotification_def)

lemma in_sync_react: "in_sync s \<Longrightarrow> in_sync (react hides s g)"
  by (cases g)
    (simp_all add: in_sync_handleFiles in_sync_removeTrack in_sync_loadTrack in_sync_togglePlay
      playPrev_def playNext_def, simp add: in_sync_def handleAudioError_def)

text \<open>
  After any sequence of gestures and events, started in the initial state,
  \<^verbatim>\<open>isPlaying\<close> is true exactly when the last call the script made on the element
  was \<^verbatim>\<open>play()\<close>.
\<close>

theorem isPlaying_in_sync:
  "isPlaying (foldl (react hides) initial gs)
     = (\<not> paused (audioPlayer (foldl (react hides) initial gs)))"
proof -
  have "in_sync s \<Longrightarrow> in_sync (foldl (react hides) s gs)" for s
    by (induction gs arbitrary: s) (simp_all add: in_sync_react)
  moreover have "in_sync initial" by (simp add: in_sync_def initial_def)
  ultimately show ?thesis by (simp add: in_sync_def)
qed

subsection \<open>The scenario of the specification\<close>

text \<open>
  The scenario of the specification: three files are added and the first plays; it is
  removed, and the track that followed it is selected at index 0 and plays; the next
  track is index 1, and the next after it is index 0 again.
\<close>

theorem three_track_scenario:
  "currentTrackIndex three_tracks = 0 \<and> isPlaying three_tracks \<and>
   (\<exists>s2 s3 s4.
      removeTrack example_parser 0 three_tracks = Inr s2 \<and>
      map name (playlist s2) = [''b'', ''c''] \<and> currentTrackIndex s2 = 0 \<and>
      src (audioPlayer s2) = Some 1 \<and> isPlaying s2 \<and>
      playNext example_parser s2 = Inr s3 \<and> currentTrackIndex s3 = 1 \<and>
      src (audioPlayer s3) = Some 2 \<and>
      playNext example_parser s3 = Inr s4 \<and> currentTrackIndex s4 = 0 \<and>
      src (audioPlayer s4) = Some 1)"
proof -
  let ?b = "\<lparr>name = ''b'', file_obj = song ''b.mp3'', url = 1\<rparr>"
  let ?c = "\<lparr>name = ''c'', file_obj = song ''c.mp3'', url = 2\<rparr>"
  let ?h = example_parser
  have i: "index_at (playlist three_tracks) 0
      = Some \<lparr>name = ''a'', file_obj = song ''a.mp3'', url = 0\<rparr>"
    by (simp add: three_tracks_fields index_at_def)
  have sp: "splice1 (playlist three_tracks) 0 = [?b, ?c]"
    by (simp add: three_tracks_fields splice1_def)
  have j: "index_at (playlist (removed 0 three_tracks)) 0 = Some ?b"
    by (simp add: sp index_at_def)
  have rr: "renders ?h (removed 0 three_tracks)"
    by (simp add: renders_def sp example_parser_def)
  define s2 where "s2 = state_of (removeTrack ?h 0 three_tracks)"
  have r2: "removeTrack ?h 0 three_tracks = Inr s2"
    unfolding s2_def
    by (simp add: removeTrack_valid[OF i] three_tracks_fields loadTrack_valid[OF j] rr
        renderPlaylist_eq)
  have e2: "s2 = rendered ?h (state_of (loadTrack ?h 0 (removed 0 three_tracks)))"
    unfolding s2_def
    by (simp add: removeTrack_valid[OF i] three_tracks_fields loadTrack_valid[OF j] rr
        renderPlaylist_eq)
  have f2: "playlist s2 = [?b, ?c]" "currentTrackIndex s2 = 0" "src (audioPlayer s2) = Some 1"
    "isPlaying s2"
    by (simp_all add: e2 loadTrack_fields[OF j rr] sp)
  have r: "renders ?h s2" by (simp add: renders_def f2 example_parser_def)
  have k: "index_at (playlist s2) 1 = Some ?c"
    by (simp add: f2 index_at_def)
  define s3 where "s3 = state_of (loadTrack ?h 1 s2)"
  have r3: "playNext ?h s2 = Inr s3"
    using loadTrack_returns[OF k r] by (simp add: playNext_def f2 s3_def)
  have f3: "playlist s3 = [?b, ?c]" "currentTrackIndex s3 = 1" "src (audioPlayer s3) = Some 2"
    by (simp_all add: s3_def loadTrack_fields[OF k r] f2)
  have r': "renders ?h s3" by (simp add: renders_def f3 example_parser_def)
  have l: "index_at (playlist s3) 0 = Some ?b"
    by (simp add: f3 index_at_def)
  define s4 where "s4 = state_of (loadTrack ?h 0 s3)"
  have r4: "playNext ?h s3 = Inr s4"
    using loadTrack_returns[OF l r'] by (simp add: playNext_def f3 s4_def)
  have f4: "currentTrackIndex s4 = 0" "src (audioPlayer s4) = Some 1"
    by (simp_all add: s4_def loadTrack_fields[OF l r'])
  show ?thesis
    using r2 r3 r4 f2 f3 f4 by (simp add: three_tracks_fields)
qed

end
